theory Spec2Isabelle
  imports Main "HOL-Library.Sublist"
begin

section \<open>Python text primitives\<close>

text \<open>
  A Python \<open>str\<close> is modelled as a \<open>string\<close>, one \<open>char\<close> per code point: the model
  covers the texts whose code points lie between 0 and 255 (ASCII and Latin-1; the
  telemetry keys, postcodes and timestamps are such texts, and so is the degree sign
  U+00B0 that the formatter prints, the single character \<open>CHR 0xB0\<close>). The predicates and
  case mappings below are Python's on every one of these 256 characters.

  Upper-casing leaves this range at two characters: the micro sign U+00B5 becomes
  U+039C and U+00FF becomes U+0178. The result of \<open>s.upper()\<close> is therefore a list of
  \<open>cpoint\<close>, a character of the range or one of these two code points. \<open>s.capitalize()\<close>
  returns a \<open>string\<close> and leaves these two characters as they are: a text that begins
  with one of them is outside the model of \<open>capitalize\<close>.
\<close>

text \<open>
  \<open>c.isupper()\<close>: the cased capital letters, A to Z, U+00C0 to U+00D6 and U+00D8 to
  U+00DE.
\<close>

definition isupper :: "char \<Rightarrow> bool" where
  "isupper c = ((65 \<le> (of_char c :: nat) \<and> (of_char c :: nat) \<le> 90)
              \<or> (192 \<le> (of_char c :: nat) \<and> (of_char c :: nat) \<le> 214)
              \<or> (216 \<le> (of_char c :: nat) \<and> (of_char c :: nat) \<le> 222))"

text \<open>
  The small letters that have a capital in the range, 32 places below: a to z, U+00E0
  to U+00F6 and U+00F8 to U+00FE.
\<close>

definition islower :: "char \<Rightarrow> bool" where
  "islower c = ((97 \<le> (of_char c :: nat) \<and> (of_char c :: nat) \<le> 122)
              \<or> (224 \<le> (of_char c :: nat) \<and> (of_char c :: nat) \<le> 246)
              \<or> (248 \<le> (of_char c :: nat) \<and> (of_char c :: nat) \<le> 254))"

text \<open>The letters of the regular-expression class \<open>[A-Z]\<close>, and the letters a to z.\<close>

definition is_AZ :: "char \<Rightarrow> bool" where
  "is_AZ c = (65 \<le> (of_char c :: nat) \<and> (of_char c :: nat) \<le> 90)"

definition is_az :: "char \<Rightarrow> bool" where
  "is_az c = (97 \<le> (of_char c :: nat) \<and> (of_char c :: nat) \<le> 122)"

text \<open>The decimal digits, the class \<open>\d\<close>: in the range these are 0 to 9 only.\<close>

definition isdecimal :: "char \<Rightarrow> bool" where
  "isdecimal c = (48 \<le> (of_char c :: nat) \<and> (of_char c :: nat) \<le> 57)"

text \<open>
  Blank characters of \<open>str.strip()\<close> and of \<open>\s\<close>: TAB, LF, VT, FF, CR, FS, GS, RS, US,
  SPACE, NEL (U+0085) and the no-break space (U+00A0).
\<close>

definition isspace :: "char \<Rightarrow> bool" where
  "isspace c = ((9 \<le> (of_char c :: nat) \<and> (of_char c :: nat) \<le> 13)
              \<or> (28 \<le> (of_char c :: nat) \<and> (of_char c :: nat) \<le> 32)
              \<or> (of_char c :: nat) = 133 \<or> (of_char c :: nat) = 160)"

text \<open>\<open>s.lower()\<close>: every capital letter of the range has its small letter 32 places above.\<close>

definition lower_chr :: "char \<Rightarrow> char" where
  "lower_chr c = (if isupper c then char_of ((of_char c :: nat) + 32) else c)"

definition lower :: "string \<Rightarrow> string" where
  "lower s = map lower_chr s"

text \<open>
  \<open>s.upper()\<close>: a small letter becomes its capital, the sharp s (U+00DF) becomes the two
  letters SS, the micro sign and U+00FF become code points above the range, every other
  character stays.
\<close>

datatype cpoint = L1 char | Capital_Mu | Capital_Y_Diaeresis

definition upper_chr :: "char \<Rightarrow> cpoint list" where
  "upper_chr c =
     (if islower c then [L1 (char_of ((of_char c :: nat) - 32))]
      else if c = CHR 0xDF then [L1 CHR ''S'', L1 CHR ''S'']
      else if c = CHR 0xB5 then [Capital_Mu]
      else if c = CHR 0xFF then [Capital_Y_Diaeresis]
      else [L1 c])"

definition upper :: "string \<Rightarrow> cpoint list" where
  "upper s = concat (map upper_chr s)"

text \<open>
  \<open>s.capitalize()\<close>: the first character title-cased, all the others lower-cased. The
  title case of a small letter is its capital, that of the sharp s is the two letters Ss.
\<close>

definition title_chr :: "char \<Rightarrow> string" where
  "title_chr c =
     (if islower c then [char_of ((of_char c :: nat) - 32)]
      else if c = CHR 0xDF then ''Ss''
      else [c])"

fun capitalize :: "string \<Rightarrow> string" where
  "capitalize [] = []"
| "capitalize (c # cs) = title_chr c @ lower cs"

text \<open>\<open>s.strip()\<close>: leading and trailing blanks removed.\<close>

definition strip :: "string \<Rightarrow> string" where
  "strip s = rev (dropWhile isspace (rev (dropWhile isspace s)))"

text \<open>\<open>sub in s\<close> on strings: \<open>sub\<close> occurs in \<open>s\<close> as a contiguous substring.\<close>

fun substr_in :: "string \<Rightarrow> string \<Rightarrow> bool" where
  "substr_in sub [] = (sub = [])"
| "substr_in sub (c # cs) = (prefix sub (c # cs) \<or> substr_in sub cs)"

text \<open>
  \<open>s.replace(old, new)\<close>: the non-overlapping occurrences of \<open>old\<close> are replaced from
  left to right; an empty \<open>old\<close> matches before every character and at the end.
\<close>

function replace_str :: "string \<Rightarrow> string \<Rightarrow> string \<Rightarrow> string" where
  "replace_str old new [] = (if old = [] then new else [])"
| "replace_str old new (c # cs) =
     (if old = [] then new @ c # replace_str old new cs
      else if prefix old (c # cs) then new @ replace_str old new (drop (length old) (c # cs))
      else c # replace_str old new cs)"
  by pat_completeness auto
termination
  by (relation "measure (\<lambda>(old, new, s). length s)") auto

text \<open>\<open>"".join(" " + char if char.isupper() else char for char in s)\<close>.\<close>

definition space_upper :: "string \<Rightarrow> string" where
  "space_upper s = concat (map (\<lambda>char. if isupper char then [CHR '' '', char] else [char]) s)"

text \<open>\<open>sep.join(xs)\<close>.\<close>

fun join_str :: "string \<Rightarrow> string list \<Rightarrow> string" where
  "join_str sep [] = []"
| "join_str sep [x] = x"
| "join_str sep (x # y # r) = x @ sep @ join_str sep (y # r)"

text \<open>
  \<open>str(n)\<close> of an integer: its decimal digits, with a minus sign when negative. This is
  the text when the conversion succeeds; the interpreter's limit on the number of
  digits, beyond which the conversion raises, is \<open>str_int_lim\<close> below.
\<close>

definition digit_chr :: "nat \<Rightarrow> char" where
  "digit_chr d = char_of (48 + d)"

function str_nat :: "nat \<Rightarrow> string" where
  "str_nat n = (if n < 10 then [digit_chr n] else str_nat (n div 10) @ [digit_chr (n mod 10)])"
  by pat_completeness auto
termination
  by (relation "measure (\<lambda>n. n)") auto

declare str_nat.simps [simp del]

definition str_int :: "int \<Rightarrow> string" where
  "str_int i = (if i < 0 then CHR ''-'' # str_nat (nat (- i)) else str_nat (nat i))"


section \<open>Python values\<close>

text \<open>
  The values that reach the validators and the formatter: what a decoded JSON document
  holds. A dictionary keeps its insertion order, so it is an association list; a key is
  a string in every record decoded from JSON, and \<open>KInt\<close> stands for a key that is not a
  string. A float is carried as the text Python prints for it: the code only tests its
  type and prints it.
\<close>

datatype pykey = KStr string | KInt int

datatype pyval =
    VNone
  | VBool bool
  | VInt int
  | VFloat string
  | VStr string
  | VDict "(pykey \<times> pyval) list"

type_synonym pydict = "(pykey \<times> pyval) list"

datatype error = ValueError | TypeError | AttributeError | KeyError | RecursionError

text \<open>Truth value of an object, as \<open>not x\<close> tests it.\<close>

fun truthy :: "pyval \<Rightarrow> bool" where
  "truthy VNone = False"
| "truthy (VBool b) = b"
| "truthy (VInt n) = (n \<noteq> 0)"
| "truthy (VFloat t) = (t \<noteq> ''0.0'' \<and> t \<noteq> ''-0.0'')"
| "truthy (VStr s) = (s \<noteq> [])"
| "truthy (VDict kvs) = (kvs \<noteq> [])"

text \<open>\<open>isinstance(v, str)\<close>, \<open>isinstance(v, bool)\<close>, \<open>isinstance(v, dict)\<close>.\<close>

fun is_str :: "pyval \<Rightarrow> bool" where
  "is_str (VStr s) = True"
| "is_str _ = False"

fun is_bool :: "pyval \<Rightarrow> bool" where
  "is_bool (VBool b) = True"
| "is_bool _ = False"

fun is_dict :: "pyval \<Rightarrow> bool" where
  "is_dict (VDict kvs) = True"
| "is_dict _ = False"

text \<open>\<open>isinstance(v, (int, float))\<close>: \<open>bool\<close> is a subclass of \<open>int\<close>, so a boolean passes.\<close>

fun is_int_or_float :: "pyval \<Rightarrow> bool" where
  "is_int_or_float (VBool b) = True"
| "is_int_or_float (VInt n) = True"
| "is_int_or_float (VFloat t) = True"
| "is_int_or_float _ = False"

text \<open>
  \<open>repr\<close> of a string: single quotes, unless the string has a single quote and no double
  quote; the quote and the backslash are escaped, TAB, LF and CR have their letter
  escapes, every other non-printable character is written \<open>\xhh\<close>.
\<close>

definition hex_chr :: "nat \<Rightarrow> char" where
  "hex_chr d = (if d < 10 then char_of (48 + d) else char_of (87 + d))"

definition repr_chr :: "char \<Rightarrow> char \<Rightarrow> string" where
  "repr_chr quote c =
     (if c = quote \<or> c = CHR 0x5C then [CHR 0x5C, c]
      else if c = CHR 0x09 then [CHR 0x5C, CHR ''t'']
      else if c = CHR 0x0A then [CHR 0x5C, CHR ''n'']
      else if c = CHR 0x0D then [CHR 0x5C, CHR ''r'']
      else if (of_char c :: nat) < 32 \<or> (of_char c :: nat) = 127
              \<or> (128 \<le> (of_char c :: nat) \<and> (of_char c :: nat) \<le> 160) \<or> (of_char c :: nat) = 173
           then [CHR 0x5C, CHR ''x'', hex_chr ((of_char c :: nat) div 16), hex_chr ((of_char c :: nat) mod 16)]
      else [c])"

definition repr_str :: "string \<Rightarrow> string" where
  "repr_str s =
     (let quote = (if CHR 0x27 \<in> set s \<and> CHR 0x22 \<notin> set s then CHR 0x22 else CHR 0x27)
      in quote # concat (map (repr_chr quote) s) @ [quote])"

fun repr_key :: "pykey \<Rightarrow> string" where
  "repr_key (KStr s) = repr_str s"
| "repr_key (KInt n) = str_int n"

text \<open>\<open>repr(v)\<close>; a dictionary prints as \<open>{key: value, ...}\<close> with \<open>repr\<close> of both.\<close>

fun py_repr :: "pyval \<Rightarrow> string" where
  "py_repr VNone = ''None''"
| "py_repr (VBool b) = (if b then ''True'' else ''False'')"
| "py_repr (VInt n) = str_int n"
| "py_repr (VFloat t) = t"
| "py_repr (VStr s) = repr_str s"
| "py_repr (VDict kvs) =
     ''{'' @ join_str '', '' (map (\<lambda>(k, v). repr_key k @ '': '' @ py_repr v) kvs) @ ''}''"

text \<open>\<open>str(v)\<close>, which is what an f-string field \<open>{v}\<close> prints: a string prints as itself.\<close>

fun py_str :: "pyval \<Rightarrow> string" where
  "py_str (VStr s) = s"
| "py_str v = py_repr v"

text \<open>\<open>d.get(key, default)\<close> and \<open>d[key]\<close>.\<close>

definition dict_get :: "pydict \<Rightarrow> pykey \<Rightarrow> pyval \<Rightarrow> pyval" where
  "dict_get d key dflt = (case map_of d key of Some v \<Rightarrow> v | None \<Rightarrow> dflt)"

definition dict_item :: "pydict \<Rightarrow> pykey \<Rightarrow> error + pyval" where
  "dict_item d key = (case map_of d key of Some v \<Rightarrow> Inr v | None \<Rightarrow> Inl KeyError)"

text \<open>String methods called on a key: a key that is not a string has none of them.\<close>

fun key_lower :: "pykey \<Rightarrow> error + string" where
  "key_lower (KStr s) = Inr (lower s)"
| "key_lower (KInt n) = Inl AttributeError"

fun key_capitalize :: "pykey \<Rightarrow> error + string" where
  "key_capitalize (KStr s) = Inr (capitalize s)"
| "key_capitalize (KInt n) = Inl AttributeError"


section \<open>Validators (tools/validators.py)\<close>

subsection \<open>Regular expressions\<close>

text \<open>
  The fragment of \<open>re\<close> the two postcode patterns use: the classes \<open>[A-Z]\<close> and \<open>\d\<close>,
  concatenation and the greedy bounded repetition \<open>r{m,n}\<close> (\<open>r?\<close> is \<open>r{0,1}\<close>). The
  subject is the upper-cased text, a list of \<open>cpoint\<close>. \<open>rx_match r s\<close> lists the
  remainders of \<open>s\<close> after each way of matching \<open>r\<close> at its start, in the order a
  backtracking matcher tries them (longest repetition first).
\<close>

datatype cls = Upper_AZ | Digit

datatype regex = Cls cls | Cat regex regex | Rep nat nat regex

text \<open>U+039C and U+0178 are letters outside \<open>[A-Z]\<close>, and they are not digits.\<close>

fun in_cls :: "cls \<Rightarrow> cpoint \<Rightarrow> bool" where
  "in_cls Upper_AZ (L1 c) = is_AZ c"
| "in_cls Digit (L1 c) = isdecimal c"
| "in_cls k Capital_Mu = False"
| "in_cls k Capital_Y_Diaeresis = False"

fun rep_match :: "(cpoint list \<Rightarrow> cpoint list list) \<Rightarrow> nat \<Rightarrow> nat \<Rightarrow> cpoint list \<Rightarrow> cpoint list list" where
  "rep_match f m 0 s = (if m = 0 then [s] else [])"
| "rep_match f m (Suc n) s =
     concat (map (rep_match f (m - 1) n) (f s)) @ (if m = 0 then [s] else [])"

fun rx_match :: "regex \<Rightarrow> cpoint list \<Rightarrow> cpoint list list" where
  "rx_match (Cls k) [] = []"
| "rx_match (Cls k) (c # cs) = (if in_cls k c then [cs] else [])"
| "rx_match (Cat a b) s = concat (map (rx_match b) (rx_match a s))"
| "rx_match (Rep m n r) s = rep_match (rx_match r) m n s"

text \<open>\<open>$\<close> matches at the end of the string and just before a newline that ends it.\<close>

definition at_end :: "cpoint list \<Rightarrow> bool" where
  "at_end r = (r = [] \<or> r = [L1 CHR 0x0A])"

text \<open>
  \<open>re.match("^(g1)(g2)$", s)\<close> and \<open>re.match("^(g1)$", s)\<close>, returning \<open>group(1)\<close> of
  the first match found, \<open>None\<close> when there is none.
\<close>

definition re_match2 :: "regex \<Rightarrow> regex \<Rightarrow> cpoint list \<Rightarrow> cpoint list option" where
  "re_match2 g1 g2 s =
     (case filter (\<lambda>r. \<exists>r' \<in> set (rx_match g2 r). at_end r') (rx_match g1 s) of
        [] \<Rightarrow> None
      | r # _ \<Rightarrow> Some (take (length s - length r) s))"

definition re_match1 :: "regex \<Rightarrow> cpoint list \<Rightarrow> cpoint list option" where
  "re_match1 g1 s =
     (case filter at_end (rx_match g1 s) of
        [] \<Rightarrow> None
      | r # _ \<Rightarrow> Some (take (length s - length r) s))"

text \<open>\<open>re.sub(r"\s+", "", s)\<close>: every run of blanks is removed.\<close>

definition re_sub_blanks :: "string \<Rightarrow> string" where
  "re_sub_blanks s = filter (\<lambda>c. \<not> isspace c) s"

subsection \<open>validate\_and\_parse\_postcode\<close>

text \<open>\<open>[A-Z]{1,2}\d{1,2}[A-Z]?\<close> and \<open>\d[A-Z]{2}\<close>.\<close>

definition outward_rx :: regex where
  "outward_rx = Cat (Rep 1 2 (Cls Upper_AZ)) (Cat (Rep 1 2 (Cls Digit)) (Rep 0 1 (Cls Upper_AZ)))"

definition inward_rx :: regex where
  "inward_rx = Cat (Cls Digit) (Rep 2 2 (Cls Upper_AZ))"

text \<open>Line 106: \<open>re.sub(r"\s+", "", postcode).upper()\<close>.\<close>

definition normalise :: "string \<Rightarrow> cpoint list" where
  "normalise p = upper (re_sub_blanks p)"

text \<open>
  The result is \<open>match.group(1)\<close>, a slice of the upper-cased text; \<open>latin1 s\<close> is the text
  \<open>s\<close> as such a result.
\<close>

definition latin1 :: "string \<Rightarrow> cpoint list" where
  "latin1 s = map L1 s"

definition validate_and_parse_postcode :: "pyval \<Rightarrow> cpoint list option" where
  "validate_and_parse_postcode postcode =
     (if \<not> truthy postcode then None
      else case postcode of
        VStr p \<Rightarrow>
          (let postcode' = normalise p in
           case re_match2 outward_rx inward_rx postcode' of
             Some g \<Rightarrow> Some g
           | None \<Rightarrow>
              (case re_match1 outward_rx postcode' of
                 Some g \<Rightarrow> Some g
               | None \<Rightarrow> None))
      | _ \<Rightarrow> None)"

subsection \<open>validate\_and\_parse\_date, validate\_datetime\<close>

text \<open>
  \<open>datetime.fromisoformat\<close> belongs to the standard library, not to this repository: it is
  a parameter of the two validators, a function from the text to the parsed value or to
  the exception it raises.
\<close>

definition validate_and_parse_date :: "(string \<Rightarrow> error + 'dt) \<Rightarrow> pyval \<Rightarrow> 'dt option" where
  "validate_and_parse_date fromisoformat date_str =
     (if \<not> truthy date_str then None
      else case date_str of
        VStr s \<Rightarrow>
          if length s < 8 then None
          else (case fromisoformat s of Inr dt \<Rightarrow> Some dt | Inl e \<Rightarrow> None)
      | _ \<Rightarrow> None)"

definition validate_datetime :: "(string \<Rightarrow> error + 'dt) \<Rightarrow> pyval \<Rightarrow> 'dt option" where
  "validate_datetime fromisoformat datetime_str =
     (if \<not> truthy datetime_str then None
      else case datetime_str of
        VStr s \<Rightarrow>
          (case fromisoformat (replace_str ''Z'' ''+00:00'' s) of
             Inr dt \<Rightarrow> Some dt
           | Inl e \<Rightarrow> None)
      | _ \<Rightarrow> None)"


section \<open>The telemetry formatter (servers/vaillant.py, format\_device\_state)\<close>

subsection \<open>Readable names\<close>

text \<open>
  The status and nested-section branches: a space before every upper-case letter, blanks
  stripped at both ends, then \<open>capitalize()\<close>. The temperature branch first replaces
  \<open>Temperature\<close> by \<open> Temperature\<close>.
\<close>

definition readable :: "string \<Rightarrow> string" where
  "readable name = capitalize (strip (space_upper name))"

definition readable_temperature :: "string \<Rightarrow> string" where
  "readable_temperature name =
     capitalize (strip (space_upper (replace_str ''Temperature'' '' Temperature'' name)))"

text \<open>
  On a key that is not a string, \<open>name.replace\<close> raises AttributeError and the generator
  over its characters raises TypeError.
\<close>

fun key_readable :: "pykey \<Rightarrow> error + string" where
  "key_readable (KStr name) = Inr (readable name)"
| "key_readable (KInt n) = Inl TypeError"

fun key_readable_temperature :: "pykey \<Rightarrow> error + string" where
  "key_readable_temperature (KStr name) = Inr (readable_temperature name)"
| "key_readable_temperature (KInt n) = Inl AttributeError"

definition status_text :: "bool \<Rightarrow> string" where
  "status_text value = (if value then ''Active'' else ''Inactive'')"

subsection \<open>Header (lines 610-620)\<close>

definition masked_serial :: "pyval \<Rightarrow> pyval" where
  "masked_serial serial =
     (case serial of
        VStr s \<Rightarrow> if length s > 24 then VStr (''V'' @ drop 24 s) else serial
      | _ \<Rightarrow> serial)"

definition device_header :: "pydict \<Rightarrow> int \<Rightarrow> string" where
  "device_header state_data index =
     (let serial = dict_get state_data (KStr ''serialNumber'')
                     (VStr (''Device '' @ str_int (index + 1)));
          device_type = dict_get state_data (KStr ''type'') (VStr ''Unknown'')
      in ''## Device: '' @ py_str (masked_serial serial) @ '' ('' @ py_str device_type
           @ '')\<newline>\<newline>'')"

subsection \<open>Temperatures (lines 622-643)\<close>

text \<open>The loop \<open>for key in state_data\<close> that fills the list \<open>temperatures\<close>.\<close>

fun temperatures_loop ::
  "pydict \<Rightarrow> pykey list \<Rightarrow> (pykey \<times> pyval) list \<Rightarrow> error + (pykey \<times> pyval) list" where
  "temperatures_loop state_data [] temperatures = Inr temperatures"
| "temperatures_loop state_data (key # keys) temperatures =
     (case key_lower key of
        Inl e \<Rightarrow> Inl e
      | Inr lk \<Rightarrow>
          if substr_in ''temperature'' lk \<and> key \<noteq> KStr ''serialNumber'' then
            (case dict_item state_data key of
               Inl e \<Rightarrow> Inl e
             | Inr v \<Rightarrow>
                 if is_int_or_float v
                 then temperatures_loop state_data keys (temperatures @ [(key, v)])
                 else temperatures_loop state_data keys temperatures)
          else temperatures_loop state_data keys temperatures)"

text \<open>The loop \<open>for name, value in temperatures\<close> that appends one line per entry.\<close>

fun temperature_lines :: "(pykey \<times> pyval) list \<Rightarrow> string \<Rightarrow> error + string" where
  "temperature_lines [] result = Inr result"
| "temperature_lines ((name, value) # rest) result =
     (case key_readable_temperature name of
        Inl e \<Rightarrow> Inl e
      | Inr readable_name \<Rightarrow>
          temperature_lines rest
            (result @ ''- '' @ readable_name @ '': '' @ py_str value @ [CHR 0xB0] @ ''C\<newline>''))"

definition temperatures_section :: "(pykey \<times> pyval) list \<Rightarrow> string \<Rightarrow> error + string" where
  "temperatures_section temperatures result =
     (if temperatures \<noteq> [] then
        (case temperature_lines temperatures (result @ ''### Temperatures\<newline>\<newline>'') of
           Inl e \<Rightarrow> Inl e
         | Inr result' \<Rightarrow> Inr (result' @ ''\<newline>''))
      else Inr result)"

subsection \<open>Status indicators (lines 645-662)\<close>

fun statuses_loop ::
  "pydict \<Rightarrow> pykey list \<Rightarrow> (pykey \<times> pyval) list \<Rightarrow> error + (pykey \<times> pyval) list" where
  "statuses_loop state_data [] statuses = Inr statuses"
| "statuses_loop state_data (key # keys) statuses =
     (case dict_item state_data key of
        Inl e \<Rightarrow> Inl e
      | Inr v \<Rightarrow>
          if is_bool v \<and> key \<noteq> KStr ''serialNumber''
          then statuses_loop state_data keys (statuses @ [(key, v)])
          else statuses_loop state_data keys statuses)"

fun status_lines :: "(pykey \<times> pyval) list \<Rightarrow> string \<Rightarrow> error + string" where
  "status_lines [] result = Inr result"
| "status_lines ((name, value) # rest) result =
     (case key_readable name of
        Inl e \<Rightarrow> Inl e
      | Inr readable_name \<Rightarrow>
          status_lines rest
            (result @ ''- '' @ readable_name @ '': '' @ status_text (truthy value) @ ''\<newline>''))"

definition statuses_section :: "(pykey \<times> pyval) list \<Rightarrow> string \<Rightarrow> error + string" where
  "statuses_section statuses result =
     (if statuses \<noteq> [] then
        (case status_lines statuses (result @ ''### Status Indicators\<newline>\<newline>'') of
           Inl e \<Rightarrow> Inl e
         | Inr result' \<Rightarrow> Inr (result' @ ''\<newline>''))
      else Inr result)"

subsection \<open>Nested objects (lines 664-699)\<close>

text \<open>The innermost loop, over the entries of a mapping nested two levels down.\<close>

fun subsub_loop :: "pydict \<Rightarrow> string \<Rightarrow> error + string" where
  "subsub_loop [] result = Inr result"
| "subsub_loop ((subsubkey, subsubvalue) # rest) result =
     (case key_readable subsubkey of
        Inl e \<Rightarrow> Inl e
      | Inr readable_name \<Rightarrow>
          subsub_loop rest
            (result @ ''- '' @ readable_name @ '': '' @ py_str subsubvalue @ ''\<newline>''))"

text \<open>One entry of a nested mapping that is not itself a mapping (lines 679-698).\<close>

definition sub_leaf :: "pykey \<Rightarrow> pyval \<Rightarrow> string \<Rightarrow> error + string" where
  "sub_leaf subkey subvalue result =
     (case key_readable subkey of
        Inl e \<Rightarrow> Inl e
      | Inr readable_name \<Rightarrow>
         (case key_lower subkey of
            Inl e \<Rightarrow> Inl e
          | Inr lk \<Rightarrow>
              if substr_in ''temperature'' lk \<and> is_int_or_float subvalue then
                Inr (result @ ''- '' @ readable_name @ '': '' @ py_str subvalue @ [CHR 0xB0] @ ''C\<newline>'')
              else if substr_in ''pressure'' lk \<and> is_int_or_float subvalue then
                Inr (result @ ''- '' @ readable_name @ '': '' @ py_str subvalue @ '' bar\<newline>'')
              else if is_bool subvalue then
                Inr (result @ ''- '' @ readable_name @ '': '' @ status_text (truthy subvalue) @ ''\<newline>'')
              else
                Inr (result @ ''- '' @ readable_name @ '': '' @ py_str subvalue @ ''\<newline>'')))"

text \<open>The loop over the entries of a top-level nested mapping.\<close>

fun sub_loop :: "pydict \<Rightarrow> string \<Rightarrow> error + string" where
  "sub_loop [] result = Inr result"
| "sub_loop ((subkey, subvalue) # rest) result =
     (case subvalue of
        VDict subsub \<Rightarrow>
          (case key_capitalize subkey of
             Inl e \<Rightarrow> Inl e
           | Inr title \<Rightarrow>
              (case subsub_loop subsub (result @ ''#### '' @ title @ ''\<newline>\<newline>'') of
                 Inl e \<Rightarrow> Inl e
               | Inr result' \<Rightarrow> sub_loop rest result'))
      | _ \<Rightarrow>
          (case sub_leaf subkey subvalue result of
             Inl e \<Rightarrow> Inl e
           | Inr result' \<Rightarrow> sub_loop rest result'))"

text \<open>The loop \<open>for key, value in state_data.items()\<close>.\<close>

fun nested_loop :: "pydict \<Rightarrow> string \<Rightarrow> error + string" where
  "nested_loop [] result = Inr result"
| "nested_loop ((key, value) # rest) result =
     (case value of
        VDict sub \<Rightarrow>
          if key \<noteq> KStr ''_metadata'' then
            (case key_capitalize key of
               Inl e \<Rightarrow> Inl e
             | Inr title \<Rightarrow>
                (case sub_loop sub (result @ ''### '' @ title @ ''\<newline>\<newline>'') of
                   Inl e \<Rightarrow> Inl e
                 | Inr result' \<Rightarrow> nested_loop rest (result' @ ''\<newline>'')))
          else nested_loop rest result
      | _ \<Rightarrow> nested_loop rest result)"

subsection \<open>format\_device\_state\<close>

definition format_device_state :: "pydict \<Rightarrow> int \<Rightarrow> error + string" where
  "format_device_state state_data index =
     (case temperatures_loop state_data (map fst state_data) [] of
        Inl e \<Rightarrow> Inl e
      | Inr temperatures \<Rightarrow>
     (case temperatures_section temperatures (device_header state_data index) of
        Inl e \<Rightarrow> Inl e
      | Inr result1 \<Rightarrow>
     (case statuses_loop state_data (map fst state_data) [] of
        Inl e \<Rightarrow> Inl e
      | Inr statuses \<Rightarrow>
     (case statuses_section statuses result1 of
        Inl e \<Rightarrow> Inl e
      | Inr result2 \<Rightarrow> nested_loop state_data result2))))"


section \<open>The formatter under the interpreter's limits\<close>

text \<open>
  Two limits of the interpreter can make the formatter raise on a value that it prints.
  The conversion of an integer to text raises ValueError when the integer has more
  digits than \<open>sys.get_int_max_str_digits()\<close>, which is 4300 unless configured otherwise;
  the value 0 switches the limit off. And \<open>repr\<close> calls itself on the keys and values of
  a mapping: it raises RecursionError when the nesting exceeds what the recursion limit
  still allows. \<open>py_str\<close> and \<open>format_device_state\<close> above give the text that is printed
  when neither happens. The definitions of this section add the two error paths: \<open>limit\<close>
  is the digit limit, and \<open>depth\<close> is the number of nested calls of \<open>repr\<close> that the
  interpreter still allows where the formatter prints a value.
\<close>

definition too_many_digits :: "nat \<Rightarrow> int \<Rightarrow> bool" where
  "too_many_digits limit i = (0 < limit \<and> limit < length (str_nat (nat \<bar>i\<bar>)))"

definition str_int_lim :: "nat \<Rightarrow> int \<Rightarrow> error + string" where
  "str_int_lim limit i = (if too_many_digits limit i then Inl ValueError else Inr (str_int i))"

text \<open>The results of a list of computations done in order, or the first error.\<close>

fun first_error :: "(error + 'a) list \<Rightarrow> error + 'a list" where
  "first_error [] = Inr []"
| "first_error (x # xs) =
     (case x of
        Inl e \<Rightarrow> Inl e
      | Inr y \<Rightarrow> (case first_error xs of Inl e \<Rightarrow> Inl e | Inr ys \<Rightarrow> Inr (y # ys)))"

text \<open>
  \<open>repr(v)\<close>: every call uses one level of the recursion budget; the entries of a mapping
  are printed in order, the key before the value.
\<close>

fun repr_key_lim :: "nat \<Rightarrow> nat \<Rightarrow> pykey \<Rightarrow> error + string" where
  "repr_key_lim limit 0 k = Inl RecursionError"
| "repr_key_lim limit (Suc depth) (KStr s) = Inr (repr_str s)"
| "repr_key_lim limit (Suc depth) (KInt n) = str_int_lim limit n"

fun py_repr_lim :: "nat \<Rightarrow> nat \<Rightarrow> pyval \<Rightarrow> error + string" where
  "py_repr_lim limit 0 v = Inl RecursionError"
| "py_repr_lim limit (Suc depth) (VDict kvs) =
     (case first_error (map (\<lambda>(k, v).
              case repr_key_lim limit depth k of
                Inl e \<Rightarrow> Inl e
              | Inr ks \<Rightarrow>
                 (case py_repr_lim limit depth v of
                    Inl e \<Rightarrow> Inl e
                  | Inr vs \<Rightarrow> Inr (ks @ '': '' @ vs))) kvs) of
        Inl e \<Rightarrow> Inl e
      | Inr items \<Rightarrow> Inr (''{'' @ join_str '', '' items @ ''}''))"
| "py_repr_lim limit (Suc depth) (VInt n) = str_int_lim limit n"
| "py_repr_lim limit (Suc depth) VNone = Inr (py_repr VNone)"
| "py_repr_lim limit (Suc depth) (VBool b) = Inr (py_repr (VBool b))"
| "py_repr_lim limit (Suc depth) (VFloat t) = Inr (py_repr (VFloat t))"
| "py_repr_lim limit (Suc depth) (VStr s) = Inr (py_repr (VStr s))"

text \<open>What an f-string field \<open>{v}\<close> prints: a string prints as itself.\<close>

fun py_str_lim :: "nat \<Rightarrow> nat \<Rightarrow> pyval \<Rightarrow> error + string" where
  "py_str_lim limit depth (VStr s) = Inr s"
| "py_str_lim limit depth VNone = py_repr_lim limit depth VNone"
| "py_str_lim limit depth (VBool b) = py_repr_lim limit depth (VBool b)"
| "py_str_lim limit depth (VInt n) = py_repr_lim limit depth (VInt n)"
| "py_str_lim limit depth (VFloat t) = py_repr_lim limit depth (VFloat t)"
| "py_str_lim limit depth (VDict kvs) = py_repr_lim limit depth (VDict kvs)"

text \<open>
  The header (lines 610-620). The default label \<open>f"Device {index + 1}"\<close> is an argument
  of \<open>get\<close>: it is built, and \<open>index + 1\<close> is converted, whether or not the record has a
  serial number.
\<close>

definition device_header_lim :: "nat \<Rightarrow> nat \<Rightarrow> pydict \<Rightarrow> int \<Rightarrow> error + string" where
  "device_header_lim limit depth state_data index =
     (case py_str_lim limit depth (VInt (index + 1)) of
        Inl e \<Rightarrow> Inl e
      | Inr number \<Rightarrow>
         (let serial = dict_get state_data (KStr ''serialNumber'') (VStr (''Device '' @ number));
              device_type = dict_get state_data (KStr ''type'') (VStr ''Unknown'')
          in case py_str_lim limit depth (masked_serial serial) of
               Inl e \<Rightarrow> Inl e
             | Inr s \<Rightarrow>
                (case py_str_lim limit depth device_type of
                   Inl e \<Rightarrow> Inl e
                 | Inr t \<Rightarrow> Inr (''## Device: '' @ s @ '' ('' @ t @ '')\<newline>\<newline>''))))"

text \<open>The temperature lines (lines 633-643).\<close>

fun temperature_lines_lim ::
  "nat \<Rightarrow> nat \<Rightarrow> (pykey \<times> pyval) list \<Rightarrow> string \<Rightarrow> error + string" where
  "temperature_lines_lim limit depth [] result = Inr result"
| "temperature_lines_lim limit depth ((name, value) # rest) result =
     (case key_readable_temperature name of
        Inl e \<Rightarrow> Inl e
      | Inr readable_name \<Rightarrow>
         (case py_str_lim limit depth value of
            Inl e \<Rightarrow> Inl e
          | Inr text_value \<Rightarrow>
              temperature_lines_lim limit depth rest
                (result @ ''- '' @ readable_name @ '': '' @ text_value @ [CHR 0xB0] @ ''C\<newline>'')))"

definition temperatures_section_lim ::
  "nat \<Rightarrow> nat \<Rightarrow> (pykey \<times> pyval) list \<Rightarrow> string \<Rightarrow> error + string" where
  "temperatures_section_lim limit depth temperatures result =
     (if temperatures \<noteq> [] then
        (case temperature_lines_lim limit depth temperatures
                (result @ ''### Temperatures\<newline>\<newline>'') of
           Inl e \<Rightarrow> Inl e
         | Inr result' \<Rightarrow> Inr (result' @ ''\<newline>''))
      else Inr result)"

text \<open>The nested objects (lines 664-699).\<close>

fun subsub_loop_lim :: "nat \<Rightarrow> nat \<Rightarrow> pydict \<Rightarrow> string \<Rightarrow> error + string" where
  "subsub_loop_lim limit depth [] result = Inr result"
| "subsub_loop_lim limit depth ((subsubkey, subsubvalue) # rest) result =
     (case key_readable subsubkey of
        Inl e \<Rightarrow> Inl e
      | Inr readable_name \<Rightarrow>
         (case py_str_lim limit depth subsubvalue of
            Inl e \<Rightarrow> Inl e
          | Inr text_value \<Rightarrow>
              subsub_loop_lim limit depth rest
                (result @ ''- '' @ readable_name @ '': '' @ text_value @ ''\<newline>'')))"

definition sub_leaf_lim :: "nat \<Rightarrow> nat \<Rightarrow> pykey \<Rightarrow> pyval \<Rightarrow> string \<Rightarrow> error + string" where
  "sub_leaf_lim limit depth subkey subvalue result =
     (case key_readable subkey of
        Inl e \<Rightarrow> Inl e
      | Inr readable_name \<Rightarrow>
         (case key_lower subkey of
            Inl e \<Rightarrow> Inl e
          | Inr lk \<Rightarrow>
              if substr_in ''temperature'' lk \<and> is_int_or_float subvalue then
                (case py_str_lim limit depth subvalue of
                   Inl e \<Rightarrow> Inl e
                 | Inr text_value \<Rightarrow>
                     Inr (result @ ''- '' @ readable_name @ '': '' @ text_value
                            @ [CHR 0xB0] @ ''C\<newline>''))
              else if substr_in ''pressure'' lk \<and> is_int_or_float subvalue then
                (case py_str_lim limit depth subvalue of
                   Inl e \<Rightarrow> Inl e
                 | Inr text_value \<Rightarrow>
                     Inr (result @ ''- '' @ readable_name @ '': '' @ text_value @ '' bar\<newline>''))
              else if is_bool subvalue then
                Inr (result @ ''- '' @ readable_name @ '': '' @ status_text (truthy subvalue)
                       @ ''\<newline>'')
              else
                (case py_str_lim limit depth subvalue of
                   Inl e \<Rightarrow> Inl e
                 | Inr text_value \<Rightarrow>
                     Inr (result @ ''- '' @ readable_name @ '': '' @ text_value @ ''\<newline>''))))"

fun sub_loop_lim :: "nat \<Rightarrow> nat \<Rightarrow> pydict \<Rightarrow> string \<Rightarrow> error + string" where
  "sub_loop_lim limit depth [] result = Inr result"
| "sub_loop_lim limit depth ((subkey, subvalue) # rest) result =
     (case subvalue of
        VDict subsub \<Rightarrow>
          (case key_capitalize subkey of
             Inl e \<Rightarrow> Inl e
           | Inr title \<Rightarrow>
              (case subsub_loop_lim limit depth subsub
                      (result @ ''#### '' @ title @ ''\<newline>\<newline>'') of
                 Inl e \<Rightarrow> Inl e
               | Inr result' \<Rightarrow> sub_loop_lim limit depth rest result'))
      | _ \<Rightarrow>
          (case sub_leaf_lim limit depth subkey subvalue result of
             Inl e \<Rightarrow> Inl e
           | Inr result' \<Rightarrow> sub_loop_lim limit depth rest result'))"

fun nested_loop_lim :: "nat \<Rightarrow> nat \<Rightarrow> pydict \<Rightarrow> string \<Rightarrow> error + string" where
  "nested_loop_lim limit depth [] result = Inr result"
| "nested_loop_lim limit depth ((key, value) # rest) result =
     (case value of
        VDict sub \<Rightarrow>
          if key \<noteq> KStr ''_metadata'' then
            (case key_capitalize key of
               Inl e \<Rightarrow> Inl e
             | Inr title \<Rightarrow>
                (case sub_loop_lim limit depth sub (result @ ''### '' @ title @ ''\<newline>\<newline>'') of
                   Inl e \<Rightarrow> Inl e
                 | Inr result' \<Rightarrow> nested_loop_lim limit depth rest (result' @ ''\<newline>'')))
          else nested_loop_lim limit depth rest result
      | _ \<Rightarrow> nested_loop_lim limit depth rest result)"

text \<open>\<open>format_device_state\<close>, in the order of the source: the header comes first.\<close>

definition format_device_state_lim :: "nat \<Rightarrow> nat \<Rightarrow> pydict \<Rightarrow> int \<Rightarrow> error + string" where
  "format_device_state_lim limit depth state_data index =
     (case device_header_lim limit depth state_data index of
        Inl e \<Rightarrow> Inl e
      | Inr header \<Rightarrow>
     (case temperatures_loop state_data (map fst state_data) [] of
        Inl e \<Rightarrow> Inl e
      | Inr temperatures \<Rightarrow>
     (case temperatures_section_lim limit depth temperatures header of
        Inl e \<Rightarrow> Inl e
      | Inr result1 \<Rightarrow>
     (case statuses_loop state_data (map fst state_data) [] of
        Inl e \<Rightarrow> Inl e
      | Inr statuses \<Rightarrow>
     (case statuses_section statuses result1 of
        Inl e \<Rightarrow> Inl e
      | Inr result2 \<Rightarrow> nested_loop_lim limit depth state_data result2)))))"


section \<open>Notions used to state the properties\<close>

text \<open>
  The postcode grammar in the words of the specification: the outward code is one or two
  letters, one or two digits and an optional trailing letter; the inward code is one
  digit and two letters. The letters are those of the postcode alphabet, A to Z in
  either case, and the digits are 0 to 9.
\<close>

fun is_letter :: "cpoint \<Rightarrow> bool" where
  "is_letter (L1 c) = (is_AZ c \<or> is_az c)"
| "is_letter Capital_Mu = False"
| "is_letter Capital_Y_Diaeresis = False"

fun is_digit :: "cpoint \<Rightarrow> bool" where
  "is_digit (L1 c) = isdecimal c"
| "is_digit Capital_Mu = False"
| "is_digit Capital_Y_Diaeresis = False"

definition outward_grammar :: "cpoint list \<Rightarrow> bool" where
  "outward_grammar w =
     (\<exists>ls ds t. w = ls @ ds @ t
        \<and> 1 \<le> length ls \<and> length ls \<le> 2 \<and> list_all is_letter ls
        \<and> 1 \<le> length ds \<and> length ds \<le> 2 \<and> list_all is_digit ds
        \<and> length t \<le> 1 \<and> list_all is_letter t)"

definition inward_grammar :: "cpoint list \<Rightarrow> bool" where
  "inward_grammar w = (\<exists>d a b. w = [d, a, b] \<and> is_digit d \<and> is_letter a \<and> is_letter b)"

text \<open>
  A well-formed telemetry value: every key of every mapping in it, at any depth, is a
  string. \<open>str_dict\<close> turns a list of string-keyed entries into a dictionary.
\<close>

fun is_kstr :: "pykey \<Rightarrow> bool" where
  "is_kstr (KStr s) = True"
| "is_kstr (KInt n) = False"

fun str_keys :: "pyval \<Rightarrow> bool" where
  "str_keys (VDict kvs) = list_all (\<lambda>(k, v). is_kstr k \<and> str_keys v) kvs"
| "str_keys _ = True"

definition str_dict :: "(string \<times> pyval) list \<Rightarrow> pydict" where
  "str_dict sd = map (\<lambda>(k, v). (KStr k, v)) sd"

text \<open>
  A value within the interpreter's limits: none of its integers, at any depth, has too
  many digits, and \<open>repr\<close> of it needs at most \<open>depth\<close> nested calls. \<open>nesting v\<close> is the
  number of nested calls that \<open>repr(v)\<close> makes: one for a value that is not a mapping, one
  more than its deepest entry for a mapping.
\<close>

fun key_ints_within :: "nat \<Rightarrow> pykey \<Rightarrow> bool" where
  "key_ints_within limit (KStr s) = True"
| "key_ints_within limit (KInt n) = (\<not> too_many_digits limit n)"

fun ints_within :: "nat \<Rightarrow> pyval \<Rightarrow> bool" where
  "ints_within limit (VInt n) = (\<not> too_many_digits limit n)"
| "ints_within limit (VDict kvs) =
     list_all (\<lambda>(k, v). key_ints_within limit k \<and> ints_within limit v) kvs"
| "ints_within limit VNone = True"
| "ints_within limit (VBool b) = True"
| "ints_within limit (VFloat t) = True"
| "ints_within limit (VStr s) = True"

fun nesting :: "pyval \<Rightarrow> nat" where
  "nesting (VDict kvs) = Suc (fold max (map (\<lambda>(k, v). nesting v) kvs) 0)"
| "nesting VNone = 1"
| "nesting (VBool b) = 1"
| "nesting (VInt n) = 1"
| "nesting (VFloat t) = 1"
| "nesting (VStr s) = 1"

text \<open>A well-formed value nested \<open>n\<close> mappings deep below its outermost mapping.\<close>

fun nested :: "nat \<Rightarrow> pyval" where
  "nested 0 = VDict []"
| "nested (Suc n) = VDict [(KStr ''next'', nested n)]"

text \<open>A number that is not a boolean.\<close>

fun is_number :: "pyval \<Rightarrow> bool" where
  "is_number (VInt n) = True"
| "is_number (VFloat t) = True"
| "is_number _ = False"

text \<open>The key names a temperature, a pressure: the substring test on the lower-cased key.\<close>

definition names_temperature :: "string \<Rightarrow> bool" where
  "names_temperature k = substr_in ''temperature'' (lower k)"

definition names_pressure :: "string \<Rightarrow> bool" where
  "names_pressure k = substr_in ''pressure'' (lower k)"


section \<open>Properties of the validators\<close>

subsection \<open>The regular-expression matcher on the postcode patterns\<close>

lemma rx_match_Cls:
  "rx_match (Cls k) s = (case s of [] \<Rightarrow> [] | c # cs \<Rightarrow> if in_cls k c then [cs] else [])"
  by (cases s) auto

lemma rep_match_Cls:
  "r \<in> set (rep_match (rx_match (Cls k)) m n s) \<longleftrightarrow>
     (\<exists>u. s = u @ r \<and> m \<le> length u \<and> length u \<le> n \<and> list_all (in_cls k) u)"
proof (induction n arbitrary: m s)
  case 0
  then show ?case by auto
next
  case (Suc n)
  show ?case
  proof
    assume "r \<in> set (rep_match (rx_match (Cls k)) m (Suc n) s)"
    then consider (more) c cs where "s = c # cs" "in_cls k c"
          "r \<in> set (rep_match (rx_match (Cls k)) (m - 1) n cs)"
      | (stop) "m = 0" "r = s"
      by (auto simp: rx_match_Cls split: list.splits if_splits)
    then show "\<exists>u. s = u @ r \<and> m \<le> length u \<and> length u \<le> Suc n \<and> list_all (in_cls k) u"
    proof cases
      case more
      from more(3) obtain u where "cs = u @ r" "m - 1 \<le> length u" "length u \<le> n"
          "list_all (in_cls k) u"
        using Suc.IH by blast
      with more(1,2) show ?thesis
        by (intro exI[of _ "c # u"]) auto
    next
      case stop
      then show ?thesis by (intro exI[of _ "[]"]) auto
    qed
  next
    assume "\<exists>u. s = u @ r \<and> m \<le> length u \<and> length u \<le> Suc n \<and> list_all (in_cls k) u"
    then obtain u where u: "s = u @ r" "m \<le> length u" "length u \<le> Suc n" "list_all (in_cls k) u"
      by blast
    show "r \<in> set (rep_match (rx_match (Cls k)) m (Suc n) s)"
    proof (cases u)
      case Nil
      with u show ?thesis by auto
    next
      case (Cons c u')
      with u have "r \<in> set (rep_match (rx_match (Cls k)) (m - 1) n (u' @ r))"
        using Suc.IH [of "m - 1" "u' @ r"] by auto
      with Cons u show ?thesis by (auto simp: rx_match_Cls)
    qed
  qed
qed

lemma rx_match_Cat:
  "r \<in> set (rx_match (Cat a b) s) \<longleftrightarrow> (\<exists>m \<in> set (rx_match a s). r \<in> set (rx_match b m))"
  by auto


lemma in_cls_Digit: "in_cls Digit = is_digit"
proof
  fix x show "in_cls Digit x = is_digit x" by (cases x) simp_all
qed

lemma rx_match_outward:
  "r \<in> set (rx_match outward_rx s) \<longleftrightarrow>
     (\<exists>ls ds t. s = ls @ ds @ t @ r
        \<and> 1 \<le> length ls \<and> length ls \<le> 2 \<and> list_all (in_cls Upper_AZ) ls
        \<and> 1 \<le> length ds \<and> length ds \<le> 2 \<and> list_all is_digit ds
        \<and> length t \<le> 1 \<and> list_all (in_cls Upper_AZ) t)"
  (is "?L \<longleftrightarrow> ?R")
proof
  assume ?L
  then obtain m1 m2 where
      m1: "m1 \<in> set (rep_match (rx_match (Cls Upper_AZ)) 1 2 s)"
      and m2: "m2 \<in> set (rep_match (rx_match (Cls Digit)) 1 2 m1)"
      and r: "r \<in> set (rep_match (rx_match (Cls Upper_AZ)) 0 1 m2)"
    unfolding outward_rx_def by auto
  from m1 obtain ls where "s = ls @ m1" "1 \<le> length ls" "length ls \<le> 2"
      "list_all (in_cls Upper_AZ) ls"
    unfolding rep_match_Cls by auto
  moreover from m2 obtain ds where "m1 = ds @ m2" "1 \<le> length ds" "length ds \<le> 2"
      "list_all is_digit ds"
    unfolding rep_match_Cls in_cls_Digit by auto
  moreover from r obtain t where "m2 = t @ r" "length t \<le> 1" "list_all (in_cls Upper_AZ) t"
    unfolding rep_match_Cls by auto
  ultimately show ?R by auto
next
  assume ?R
  then obtain ls ds t where s: "s = ls @ ds @ t @ r"
      and ls: "1 \<le> length ls" "length ls \<le> 2" "list_all (in_cls Upper_AZ) ls"
      and ds: "1 \<le> length ds" "length ds \<le> 2" "list_all is_digit ds"
      and t: "length t \<le> 1" "list_all (in_cls Upper_AZ) t"
    by blast
  have "ds @ t @ r \<in> set (rep_match (rx_match (Cls Upper_AZ)) 1 2 s)"
    unfolding rep_match_Cls using s ls by auto
  moreover have "t @ r \<in> set (rep_match (rx_match (Cls Digit)) 1 2 (ds @ t @ r))"
    unfolding rep_match_Cls in_cls_Digit using ds by auto
  moreover have "r \<in> set (rep_match (rx_match (Cls Upper_AZ)) 0 1 (t @ r))"
    unfolding rep_match_Cls using t by auto
  ultimately show ?L
    unfolding outward_rx_def by auto
qed

lemma rx_match_inward:
  "r \<in> set (rx_match inward_rx s) \<longleftrightarrow>
     (\<exists>d a b. s = d # a # b # r \<and> is_digit d \<and> in_cls Upper_AZ a \<and> in_cls Upper_AZ b)"
  (is "?L \<longleftrightarrow> ?R")
proof
  assume ?L
  then obtain m1 where m1: "m1 \<in> set (rx_match (Cls Digit) s)"
      and r: "r \<in> set (rep_match (rx_match (Cls Upper_AZ)) 2 2 m1)"
    unfolding inward_rx_def by auto
  from m1 obtain d where d: "s = d # m1" "is_digit d"
    by (auto simp: rx_match_Cls in_cls_Digit split: list.splits if_splits)
  from r obtain u where u: "m1 = u @ r" "length u = 2" "list_all (in_cls Upper_AZ) u"
    unfolding rep_match_Cls by auto
  from u(2) obtain a b where "u = [a, b]"
    by (cases u; cases "tl u") auto
  with d u show ?R by auto
next
  assume ?R
  then obtain d a b where s: "s = d # a # b # r" "is_digit d" "in_cls Upper_AZ a"
      "in_cls Upper_AZ b"
    by blast
  have "r \<in> set (rep_match (rx_match (Cls Upper_AZ)) 2 2 (a # b # r))"
    unfolding rep_match_Cls using s by (intro exI[of _ "[a, b]"]) auto
  with s show ?L
    unfolding inward_rx_def by (auto simp: in_cls_Digit)
qed

text \<open>
  The upper-cased text has no letter a to z, and with its blanks removed it has no
  newline: \<open>$\<close> can only match at the very end.
\<close>

lemma upper_chr_not_az: "L1 c \<in> set (upper_chr d) \<Longrightarrow> \<not> is_az c"
  unfolding upper_chr_def islower_def is_az_def
  by (simp split: if_splits; (elim disjE conjE; simp; linarith?))

lemma upper_chr_not_newline:
  assumes "\<not> isspace d"
  shows "L1 (CHR 0x0A) \<notin> set (upper_chr d)"
proof
  assume a: "L1 (CHR 0x0A) \<in> set (upper_chr d)"
  show False
  proof (cases "islower d")
    case True
    with a have "char_of (of_char d - 32 :: nat) = CHR 0x0A"
      by (simp add: upper_chr_def)
    then have "of_char (char_of (of_char d - 32 :: nat) :: char) = (of_char (CHR 0x0A) :: nat)"
      by (rule arg_cong)
    then have "(of_char d - 32 :: nat) mod 256 = 10"
      by (simp only: of_char_of) simp
    moreover have "(of_char d :: nat) < 256"
      by simp
    then have "(of_char d - 32 :: nat) < 256"
      by linarith
    ultimately have "(of_char d - 32 :: nat) = 10"
      by (simp only: mod_less)
    with True show False
      unfolding islower_def by linarith
  next
    case False
    with a have "d = CHR 0x0A"
      by (simp add: upper_chr_def split: if_splits)
    with assms show False
      by (simp add: isspace_def)
  qed
qed

lemma normalise_no_az: "L1 c \<in> set (normalise p) \<Longrightarrow> \<not> is_az c"
  by (auto simp: normalise_def upper_def upper_chr_not_az)

lemma normalise_no_newline: "L1 (CHR 0x0A) \<notin> set (normalise p)"
  by (auto simp: normalise_def upper_def re_sub_blanks_def upper_chr_not_newline)

lemma at_end_suffix_normalise:
  assumes "normalise p = u @ r" "at_end r"
  shows "r = []"
proof (rule ccontr)
  assume "r \<noteq> []"
  with assms(2) have "r = [L1 (CHR 0x0A)]" by (simp add: at_end_def)
  with assms(1) have "L1 (CHR 0x0A) \<in> set (normalise p)" by simp
  then show False by (simp add: normalise_no_newline)
qed

lemma in_cls_letter: "in_cls Upper_AZ x \<Longrightarrow> is_letter x"
  by (cases x) simp_all

lemma letters_upper:
  assumes "set u \<subseteq> set (normalise p)"
  shows "list_all is_letter u \<longleftrightarrow> list_all (in_cls Upper_AZ) u"
proof -
  have "is_letter x \<longleftrightarrow> in_cls Upper_AZ x" if "x \<in> set u" for x
  proof (cases x)
    case (L1 c)
    with that assms have "\<not> is_az c" using normalise_no_az [of c p] by auto
    with L1 show ?thesis by simp
  qed simp_all
  then show ?thesis by (auto simp: list_all_iff)
qed

lemma hd_filter_cases:
  obtains (none) "filter P xs = []" "\<forall>x \<in> set xs. \<not> P x"
  | (some) r rest where "filter P xs = r # rest" "r \<in> set xs" "P r"
proof (cases "filter P xs")
  case Nil
  then show ?thesis using none by (simp add: filter_empty_conv)
next
  case (Cons r rest)
  then have "r \<in> set (filter P xs)" by simp
  then have "r \<in> set xs" "P r" by simp_all
  with Cons show ?thesis using some by blast
qed

lemma full_match_sound:
  assumes r: "r \<in> set (rx_match outward_rx (normalise p))"
    and e: "\<exists>r' \<in> set (rx_match inward_rx r). at_end r'"
  shows "\<exists>out. normalise p = out @ r \<and> outward_grammar out \<and> inward_grammar r"
proof -
  from r obtain ls ds t where n: "normalise p = ls @ ds @ t @ r"
      and g: "1 \<le> length ls" "length ls \<le> 2" "list_all (in_cls Upper_AZ) ls"
             "1 \<le> length ds" "length ds \<le> 2" "list_all is_digit ds"
             "length t \<le> 1" "list_all (in_cls Upper_AZ) t"
    unfolding rx_match_outward by blast
  from e obtain r' where "r' \<in> set (rx_match inward_rx r)" and e': "at_end r'"
    by blast
  then obtain d a b where "r = d # a # b # r'" "is_digit d" "in_cls Upper_AZ a"
      "in_cls Upper_AZ b"
    unfolding rx_match_inward by blast
  with e' have r': "r = d # a # b # r'" "is_digit d" "in_cls Upper_AZ a" "in_cls Upper_AZ b"
      "at_end r'"
    by simp_all
  from n r' have "normalise p = (ls @ ds @ t @ [d, a, b]) @ r'" by simp
  from this r'(5) have "r' = []" by (rule at_end_suffix_normalise)
  with r' have "inward_grammar r"
    by (auto simp: inward_grammar_def in_cls_letter)
  moreover from g have "outward_grammar (ls @ ds @ t)"
    unfolding outward_grammar_def
    by (intro exI[of _ ls] exI[of _ ds] exI[of _ t]) (auto simp: list_all_iff in_cls_letter)
  ultimately show ?thesis using n by (intro exI[of _ "ls @ ds @ t"]) simp
qed

lemma full_match_complete:
  assumes n: "normalise p = out @ inw" and og: "outward_grammar out" and ig: "inward_grammar inw"
  shows "inw \<in> set (rx_match outward_rx (normalise p))"
    and "\<exists>r' \<in> set (rx_match inward_rx inw). at_end r'"
proof -
  from og obtain ls ds t where out: "out = ls @ ds @ t"
      and g: "1 \<le> length ls" "length ls \<le> 2" "list_all is_letter ls"
             "1 \<le> length ds" "length ds \<le> 2" "list_all is_digit ds"
             "length t \<le> 1" "list_all is_letter t"
    unfolding outward_grammar_def by blast
  have "list_all (in_cls Upper_AZ) ls" "list_all (in_cls Upper_AZ) t"
    using g(3,8) letters_upper [of ls p] letters_upper [of t p] n out by auto
  with g n out show "inw \<in> set (rx_match outward_rx (normalise p))"
    unfolding rx_match_outward by (intro exI[of _ ls] exI[of _ ds] exI[of _ t]) simp
  from ig obtain d a b where inw: "inw = [d, a, b]" "is_digit d" "is_letter a" "is_letter b"
    unfolding inward_grammar_def by blast
  have "list_all (in_cls Upper_AZ) [a, b]"
    using inw letters_upper [of "[a, b]" p] n by auto
  with inw have "[] \<in> set (rx_match inward_rx inw)"
    unfolding rx_match_inward by simp
  then show "\<exists>r' \<in> set (rx_match inward_rx inw). at_end r'"
    by (auto simp: at_end_def)
qed

lemma re_match2_postcode:
  "re_match2 outward_rx inward_rx (normalise p) =
     (if \<exists>out inw. normalise p = out @ inw \<and> outward_grammar out \<and> inward_grammar inw
      then Some (take (length (normalise p) - 3) (normalise p)) else None)"
proof (cases rule: hd_filter_cases
    [of "\<lambda>r. \<exists>r' \<in> set (rx_match inward_rx r). at_end r'" "rx_match outward_rx (normalise p)"])
  case none
  have "\<not> (\<exists>out inw. normalise p = out @ inw \<and> outward_grammar out \<and> inward_grammar inw)"
    using none(2) full_match_complete by blast
  with none(1) show ?thesis by (simp add: re_match2_def)
next
  case (some r rest)
  from full_match_sound [OF some(2,3)] obtain out where
    o: "normalise p = out @ r" "outward_grammar out" "inward_grammar r" by blast
  then have "length r = 3" by (auto simp: inward_grammar_def)
  with some(1) o show ?thesis
    by (auto simp: re_match2_def)
qed

lemma re_match1_postcode:
  "re_match1 outward_rx (normalise p) =
     (if outward_grammar (normalise p) then Some (normalise p) else None)"
proof (cases rule: hd_filter_cases [of at_end "rx_match outward_rx (normalise p)"])
  case none
  have "\<not> outward_grammar (normalise p)"
  proof
    assume "outward_grammar (normalise p)"
    then obtain ls ds t where out: "normalise p = ls @ ds @ t"
      and g: "1 \<le> length ls" "length ls \<le> 2" "list_all is_letter ls"
             "1 \<le> length ds" "length ds \<le> 2" "list_all is_digit ds"
             "length t \<le> 1" "list_all is_letter t"
      unfolding outward_grammar_def by blast
    have "list_all (in_cls Upper_AZ) ls" "list_all (in_cls Upper_AZ) t"
      using g(3,8) letters_upper [of ls p] letters_upper [of t p] out by auto
    with g out have "[] \<in> set (rx_match outward_rx (normalise p))"
      unfolding rx_match_outward by (intro exI[of _ ls] exI[of _ ds] exI[of _ t]) simp
    with none(2) show False by (auto simp: at_end_def)
  qed
  with none(1) show ?thesis by (simp add: re_match1_def)
next
  case (some r rest)
  from some(2) obtain ls ds t where n: "normalise p = ls @ ds @ t @ r"
      and g: "1 \<le> length ls" "length ls \<le> 2" "list_all (in_cls Upper_AZ) ls"
             "1 \<le> length ds" "length ds \<le> 2" "list_all is_digit ds"
             "length t \<le> 1" "list_all (in_cls Upper_AZ) t"
    unfolding rx_match_outward by blast
  from n have "normalise p = (ls @ ds @ t) @ r" by simp
  from this some(3) have r: "r = []" by (rule at_end_suffix_normalise)
  from g have "outward_grammar (ls @ ds @ t)"
    unfolding outward_grammar_def
    by (intro exI[of _ ls] exI[of _ ds] exI[of _ t]) (auto simp: list_all_iff in_cls_letter)
  with n r some(1) show ?thesis by (simp add: re_match1_def)
qed


lemma replace_str_single:
  "replace_str [c] new s = concat (map (\<lambda>x. if x = c then new else [x]) s)"
  by (induction s) auto

subsection \<open>Claims on the validators\<close>

text \<open>
  Blanks and case beyond ASCII: the no-break space and NEL are removed like any other
  blank, and the sharp s upper-cases to the two letters SS, which are an outward code
  with the digit that follows.
\<close>

lemma postcode_latin1_inputs:
  "validate_and_parse_postcode (VStr (''SW1A'' @ [CHR 0xA0] @ ''1AA'')) = Some (latin1 ''SW1A'')"
  "validate_and_parse_postcode (VStr (''M1'' @ [CHR 0x85] @ ''1AA'')) = Some (latin1 ''M1'')"
  "validate_and_parse_postcode (VStr [CHR 0xDF, CHR ''1'']) = Some (latin1 ''SS1'')"
  "validate_and_parse_postcode (VStr [CHR 0xE9, CHR ''1'']) = None"
  "validate_and_parse_postcode (VStr [CHR 0xB5, CHR ''1'']) = None"
  by code_simp+

text \<open>
  C2. \<open>validate_and_parse_postcode\<close> removes the blanks and upper-cases its input; if the
  result is an outward code followed by an inward code it returns the outward code;
  otherwise, if the result is an outward code and nothing else, it returns it; otherwise
  it returns \<open>None\<close>. A value that is not a string gives \<open>None\<close>, and the five examples of
  the specification evaluate as stated.
\<close>

theorem validate_and_parse_postcode_spec:
  "(normalise p = out @ inw \<and> outward_grammar out \<and> inward_grammar inw
      \<longrightarrow> validate_and_parse_postcode (VStr p) = Some out)
   \<and> ((\<nexists>out inw. normalise q = out @ inw \<and> outward_grammar out \<and> inward_grammar inw)
        \<and> outward_grammar (normalise q)
      \<longrightarrow> validate_and_parse_postcode (VStr q) = Some (normalise q))
   \<and> ((\<nexists>out inw. normalise r = out @ inw \<and> outward_grammar out \<and> inward_grammar inw)
        \<and> \<not> outward_grammar (normalise r)
      \<longrightarrow> validate_and_parse_postcode (VStr r) = None)
   \<and> (\<not> is_str v \<longrightarrow> validate_and_parse_postcode v = None)
   \<and> validate_and_parse_postcode (VStr ''SW1A 1AA'') = Some (latin1 ''SW1A'')
   \<and> validate_and_parse_postcode (VStr ''SW1A1AA'') = Some (latin1 ''SW1A'')
   \<and> validate_and_parse_postcode (VStr ''sw1a'') = Some (latin1 ''SW1A'')
   \<and> validate_and_parse_postcode (VStr ''123'') = None
   \<and> validate_and_parse_postcode (VStr []) = None"
proof -
  have nonempty: "validate_and_parse_postcode (VStr p) =
      (case re_match2 outward_rx inward_rx (normalise p) of
         Some g \<Rightarrow> Some g
       | None \<Rightarrow> re_match1 outward_rx (normalise p))" if "normalise p \<noteq> []" for p
  proof -
    from that have "p \<noteq> []" by (auto simp: normalise_def upper_def re_sub_blanks_def)
    then show ?thesis
      by (simp add: validate_and_parse_postcode_def Let_def split: option.splits)
  qed
  have og_ne: "w \<noteq> []" if "outward_grammar w" for w
    using that by (auto simp: outward_grammar_def)
  have A: "validate_and_parse_postcode (VStr p) = Some out"
    if "normalise p = out @ inw" "outward_grammar out" "inward_grammar inw"
  proof -
    from that og_ne have ne: "normalise p \<noteq> []" by auto
    from that have "length inw = 3" by (auto simp: inward_grammar_def)
    with that(1) have "take (length (normalise p) - 3) (normalise p) = out" by simp
    moreover have "re_match2 outward_rx inward_rx (normalise p)
        = Some (take (length (normalise p) - 3) (normalise p))"
      using that unfolding re_match2_postcode by auto
    ultimately show ?thesis
      by (simp add: nonempty [OF ne])
  qed
  have B: "validate_and_parse_postcode (VStr q) = Some (normalise q)"
    if "\<nexists>out inw. normalise q = out @ inw \<and> outward_grammar out \<and> inward_grammar inw"
       "outward_grammar (normalise q)"
  proof -
    from that(2) have ne: "normalise q \<noteq> []" by (rule og_ne)
    have "re_match2 outward_rx inward_rx (normalise q) = None"
      unfolding re_match2_postcode by (rule if_not_P) (rule that(1))
    then show ?thesis using that(2)
      by (simp add: nonempty [OF ne] re_match1_postcode)
  qed
  have C: "validate_and_parse_postcode (VStr r) = None"
    if "\<nexists>out inw. normalise r = out @ inw \<and> outward_grammar out \<and> inward_grammar inw"
       "\<not> outward_grammar (normalise r)"
  proof -
    have "re_match2 outward_rx inward_rx (normalise r) = None"
      unfolding re_match2_postcode by (rule if_not_P) (rule that(1))
    moreover have "re_match1 outward_rx (normalise r) = None"
      unfolding re_match1_postcode by (rule if_not_P) (rule that(2))
    ultimately show ?thesis
      by (simp add: validate_and_parse_postcode_def)
  qed
  have D: "validate_and_parse_postcode v = None" if "\<not> is_str v"
    using that by (cases v) (auto simp: validate_and_parse_postcode_def)
  have E: "validate_and_parse_postcode (VStr ''SW1A 1AA'') = Some (latin1 ''SW1A'')"
    "validate_and_parse_postcode (VStr ''SW1A1AA'') = Some (latin1 ''SW1A'')"
    "validate_and_parse_postcode (VStr ''sw1a'') = Some (latin1 ''SW1A'')"
    "validate_and_parse_postcode (VStr ''123'') = None"
    "validate_and_parse_postcode (VStr []) = None"
    by code_simp+
  from A B C D E show ?thesis by blast
qed

theorem validate_and_parse_postcode_spec_witness:
  "normalise ''SW1A 1AA'' = latin1 ''SW1A'' @ latin1 ''1AA''
   \<and> outward_grammar (latin1 ''SW1A'') \<and> inward_grammar (latin1 ''1AA'')
   \<and> validate_and_parse_postcode (VStr ''SW1A 1AA'') = Some (latin1 ''SW1A'')
   \<and> (\<nexists>out inw. normalise ''m1'' = out @ inw \<and> outward_grammar out \<and> inward_grammar inw)
   \<and> outward_grammar (normalise ''m1'')
   \<and> validate_and_parse_postcode (VStr ''m1'') = Some (latin1 ''M1'')
   \<and> (\<nexists>out inw. normalise ''ABC 123'' = out @ inw \<and> outward_grammar out \<and> inward_grammar inw)
   \<and> \<not> outward_grammar (normalise ''ABC 123'')
   \<and> validate_and_parse_postcode (VStr ''ABC 123'') = None
   \<and> \<not> is_str (VInt 7) \<and> validate_and_parse_postcode (VInt 7) = None"
proof -
  have full: "(\<exists>out inw. normalise p = out @ inw \<and> outward_grammar out \<and> inward_grammar inw)
      \<longleftrightarrow> re_match2 outward_rx inward_rx (normalise p) \<noteq> None" for p
    by (simp add: re_match2_postcode)
  have outw: "outward_grammar (normalise p) \<longleftrightarrow> re_match1 outward_rx (normalise p) \<noteq> None" for p
    by (simp add: re_match1_postcode)
  have n1: "normalise ''SW1A 1AA'' = latin1 ''SW1A'' @ latin1 ''1AA''" by code_simp
  have "normalise ''SW1A'' = latin1 ''SW1A''" by code_simp
  moreover have "outward_grammar (normalise ''SW1A'')"
    unfolding outw by code_simp
  ultimately have o1: "outward_grammar (latin1 ''SW1A'')" by simp
  have i1: "inward_grammar (latin1 ''1AA'')"
    by (simp add: inward_grammar_def latin1_def isdecimal_def is_AZ_def)
  have f2: "\<nexists>out inw. normalise ''m1'' = out @ inw \<and> outward_grammar out \<and> inward_grammar inw"
    unfolding full by code_simp
  have o2: "outward_grammar (normalise ''m1'')"
    unfolding outw by code_simp
  have n2: "normalise ''m1'' = latin1 ''M1''" by code_simp
  have f3: "\<nexists>out inw. normalise ''ABC 123'' = out @ inw \<and> outward_grammar out \<and> inward_grammar inw"
    unfolding full by code_simp
  have o3: "\<not> outward_grammar (normalise ''ABC 123'')"
    unfolding outw by code_simp
  have v: "\<not> is_str (VInt 7)" by simp
  from validate_and_parse_postcode_spec
    [of "''SW1A 1AA''" "latin1 ''SW1A''" "latin1 ''1AA''" "''m1''" "''ABC 123''" "VInt 7"]
    n1 o1 i1 f2 o2 f3 o3 v
  show ?thesis
    by (simp only: n2 simp_thms)
qed

text \<open>
  C8. \<open>validate_and_parse_date\<close> returns \<open>None\<close> for a value that is not a string, for a
  string shorter than 8 characters and for a string on which the parser raises; for a
  string of at least 8 characters that the parser accepts it returns the parsed value.
  So \<open>"2025-05-01"\<close> succeeds whenever the parser accepts it, and \<open>"2025"\<close> and \<open>None\<close>
  give \<open>None\<close>.
\<close>

theorem validate_and_parse_date_spec:
  "(\<not> is_str v \<longrightarrow> validate_and_parse_date f v = None)
   \<and> (length s1 < 8 \<longrightarrow> validate_and_parse_date f (VStr s1) = None)
   \<and> (f s2 = Inl e \<longrightarrow> validate_and_parse_date f (VStr s2) = None)
   \<and> (8 \<le> length s3 \<and> f s3 = Inr dt \<longrightarrow> validate_and_parse_date f (VStr s3) = Some dt)
   \<and> (f ''2025-05-01'' = Inr dt' \<longrightarrow> validate_and_parse_date f (VStr ''2025-05-01'') = Some dt')
   \<and> validate_and_parse_date f (VStr ''2025'') = None
   \<and> validate_and_parse_date f VNone = None"
  by (cases v) (auto simp: validate_and_parse_date_def)

theorem validate_and_parse_date_spec_witness:
  "(let f = (\<lambda>s. if s = ''2025-05-01'' then Inr (2025 :: nat, 5 :: nat, 1 :: nat) else Inl ValueError) in
    \<not> is_str (VInt 20250501) \<and> validate_and_parse_date f (VInt 20250501) = None
    \<and> length ''2025-5'' < 8 \<and> validate_and_parse_date f (VStr ''2025-5'') = None
    \<and> f ''2025-13-01'' = Inl ValueError \<and> validate_and_parse_date f (VStr ''2025-13-01'') = None
    \<and> 8 \<le> length ''2025-05-01'' \<and> f ''2025-05-01'' = Inr (2025, 5, 1)
    \<and> validate_and_parse_date f (VStr ''2025-05-01'') = Some (2025, 5, 1))"
  using validate_and_parse_date_spec [of "VInt 20250501"
      "\<lambda>s. if s = ''2025-05-01'' then Inr (2025 :: nat, 5 :: nat, 1 :: nat) else Inl ValueError"
      "''2025-5''" "''2025-13-01''" ValueError "''2025-05-01''" "(2025, 5, 1)" "(2025, 5, 1)"]
  by (simp add: Let_def)

text \<open>
  C7, as stated, fails: \<open>validate_datetime\<close> replaces every \<open>Z\<close> of its input, not only a
  trailing one. With the parser that returns the text it is given, the input
  \<open>2025-05-01Z01:00\<close>, whose \<open>Z\<close> is not trailing, reaches the parser changed.
\<close>

theorem validate_datetime_inner_Z:
  "validate_datetime (\<lambda>s. Inr s) (VStr ''2025-05-01Z01:00'') = Some ''2025-05-01+00:0001:00''
   \<and> validate_datetime (\<lambda>s. Inr s) (VStr ''2025-05-01Z01:00'') \<noteq> Some ''2025-05-01Z01:00''"
  by (simp add: validate_datetime_def)

text \<open>
  C7, amended. \<open>validate_datetime\<close> returns \<open>None\<close> for a value that is not a string and
  for the empty string; on any other string it replaces every occurrence of \<open>Z\<close> by
  \<open>+00:00\<close> and hands the result to the parser, returning \<open>None\<close> when the parser raises.
  So \<open>"2025-05-01T01:00Z"\<close> and \<open>"2025-05-01T01:00+00:00"\<close> give the same result, a parsed
  value whenever the parser accepts the latter.
\<close>

theorem validate_datetime_spec:
  "(\<not> is_str v \<longrightarrow> validate_datetime f v = None)
   \<and> validate_datetime f (VStr []) = None
   \<and> (s \<noteq> [] \<longrightarrow> validate_datetime f (VStr s) =
         (case f (concat (map (\<lambda>c. if c = CHR ''Z'' then ''+00:00'' else [c]) s)) of
            Inr dt \<Rightarrow> Some dt | Inl e \<Rightarrow> None))
   \<and> validate_datetime f (VStr ''2025-05-01T01:00Z'')
       = validate_datetime f (VStr ''2025-05-01T01:00+00:00'')
   \<and> (f ''2025-05-01T01:00+00:00'' = Inr dt' \<longrightarrow>
         validate_datetime f (VStr ''2025-05-01T01:00Z'') = Some dt')"
  by (cases v) (auto simp: validate_datetime_def replace_str_single)

theorem validate_datetime_spec_witness:
  "(let f = (\<lambda>s. if s = ''2025-05-01T01:00+00:00'' then Inr (1746061200 :: nat) else Inl ValueError) in
    \<not> is_str VNone \<and> validate_datetime f VNone = None
    \<and> ''2025-05-01T01:00Z'' \<noteq> []
    \<and> f ''2025-05-01T01:00+00:00'' = Inr 1746061200
    \<and> validate_datetime f (VStr ''2025-05-01T01:00Z'') = Some 1746061200
    \<and> validate_datetime f (VStr ''2025-05-01T01:00+00:00'') = Some 1746061200)"
  using validate_datetime_spec [of VNone
      "\<lambda>s. if s = ''2025-05-01T01:00+00:00'' then Inr (1746061200 :: nat) else Inl ValueError"
      "''2025-05-01T01:00Z''" 1746061200]
  by (simp add: Let_def validate_datetime_def)


section \<open>Properties of the formatter\<close>

subsection \<open>The loops on dictionaries with string keys\<close>

lemma str_dict_simps [simp]:
  "str_dict [] = []"
  "str_dict ((k, v) # sd) = (KStr k, v) # str_dict sd"
  "str_dict (xs @ ys) = str_dict xs @ str_dict ys"
  by (simp_all add: str_dict_def)

lemma str_dict_filter:
  "str_dict (filter (\<lambda>(k, v). P k v) sd) = filter (\<lambda>(k, v). case k of KStr s \<Rightarrow> P s v | KInt n \<Rightarrow> False) (str_dict sd)"
  by (induction sd) auto

lemma map_of_str_dict: "map_of (str_dict sd) (KStr k) = map_of sd k"
  by (induction sd) auto

lemma map_fst_str_dict: "map fst (str_dict sd) = map KStr (map fst sd)"
  by (induction sd) auto

lemma dict_item_str_dict:
  assumes "k \<in> fst ` set sd"
  shows "dict_item (str_dict sd) (KStr k) = Inr (the (map_of sd k))"
proof -
  from assms have "map_of sd k \<noteq> None"
    by (simp add: map_of_eq_None_iff)
  then show ?thesis
    by (auto simp: dict_item_def map_of_str_dict)
qed

lemma lookup_all_keys:
  assumes "distinct (map fst sd)"
  shows "map (\<lambda>k. (k, the (map_of sd k))) (map fst sd) = sd"
proof -
  have "map (\<lambda>kv. (fst kv, the (map_of sd (fst kv)))) sd = map (\<lambda>kv. kv) sd"
  proof (rule map_cong [OF refl])
    fix kv assume "kv \<in> set sd"
    then have "map_of sd (fst kv) = Some (snd kv)"
      using assms by (intro map_of_is_SomeI) auto
    then show "(fst kv, the (map_of sd (fst kv))) = kv" by simp
  qed
  then show ?thesis by (simp add: comp_def)
qed

lemma serialNumber_not_temperature: "\<not> names_temperature ''serialNumber''"
  unfolding names_temperature_def by code_simp

lemma metadata_not_temperature: "\<not> names_temperature ''_metadata''"
  unfolding names_temperature_def by code_simp

lemma temperatures_loop_str_dict:
  assumes "set ks \<subseteq> fst ` set sd"
  shows "temperatures_loop (str_dict sd) (map KStr ks) acc
     = Inr (acc @ str_dict (filter (\<lambda>(k, v). names_temperature k \<and> is_int_or_float v)
                              (map (\<lambda>k. (k, the (map_of sd k))) ks)))"
  using assms
proof (induction ks arbitrary: acc)
  case Nil
  then show ?case by simp
next
  case (Cons k ks)
  then have item: "dict_item (str_dict sd) (KStr k) = Inr (the (map_of sd k))"
    and IH: "\<And>acc. temperatures_loop (str_dict sd) (map KStr ks) acc
     = Inr (acc @ str_dict (filter (\<lambda>(k, v). names_temperature k \<and> is_int_or_float v)
                              (map (\<lambda>k. (k, the (map_of sd k))) ks)))"
    by (auto simp: dict_item_str_dict)
  have ne: "names_temperature k \<Longrightarrow> k \<noteq> ''serialNumber''"
    using serialNumber_not_temperature by auto
  show ?case
    using ne by (auto simp: item IH names_temperature_def)
qed

lemma statuses_loop_str_dict:
  assumes "set ks \<subseteq> fst ` set sd"
  shows "statuses_loop (str_dict sd) (map KStr ks) acc
     = Inr (acc @ str_dict (filter (\<lambda>(k, v). is_bool v \<and> k \<noteq> ''serialNumber'')
                              (map (\<lambda>k. (k, the (map_of sd k))) ks)))"
  using assms
proof (induction ks arbitrary: acc)
  case Nil
  then show ?case by simp
next
  case (Cons k ks)
  then have item: "dict_item (str_dict sd) (KStr k) = Inr (the (map_of sd k))"
    and IH: "\<And>acc. statuses_loop (str_dict sd) (map KStr ks) acc
     = Inr (acc @ str_dict (filter (\<lambda>(k, v). is_bool v \<and> k \<noteq> ''serialNumber'')
                              (map (\<lambda>k. (k, the (map_of sd k))) ks)))"
    by (auto simp: dict_item_str_dict)
  show ?case
    by (auto simp: item IH)
qed

lemma temperature_lines_str_dict:
  "temperature_lines (str_dict tk) result = Inr (result @ concat (map (\<lambda>(k, v).
      ''- '' @ readable_temperature k @ '': '' @ py_str v @ [CHR 0xB0] @ ''C\<newline>'') tk))"
  by (induction tk arbitrary: result) auto

lemma status_lines_str_dict:
  "status_lines (str_dict sk) result = Inr (result @ concat (map (\<lambda>(k, v).
      ''- '' @ readable k @ '': '' @ status_text (truthy v) @ ''\<newline>'') sk))"
  by (induction sk arbitrary: result) auto

lemma subsub_loop_str_dict:
  "subsub_loop (str_dict ss) result = Inr (result @ concat (map (\<lambda>(k, v).
      ''- '' @ readable k @ '': '' @ py_str v @ ''\<newline>'') ss))"
  by (induction ss arbitrary: result) auto

lemma temperatures_section_str_dict:
  "temperatures_section (str_dict tk) result = Inr (result @
     (if tk = [] then [] else ''### Temperatures\<newline>\<newline>'' @ concat (map (\<lambda>(k, v).
      ''- '' @ readable_temperature k @ '': '' @ py_str v @ [CHR 0xB0] @ ''C\<newline>'') tk) @ ''\<newline>''))"
  by (cases tk) (auto simp: temperatures_section_def temperature_lines_str_dict)

lemma statuses_section_str_dict:
  "statuses_section (str_dict sk) result = Inr (result @
     (if sk = [] then [] else ''### Status Indicators\<newline>\<newline>'' @ concat (map (\<lambda>(k, v).
      ''- '' @ readable k @ '': '' @ status_text (truthy v) @ ''\<newline>'') sk) @ ''\<newline>''))"
  by (cases sk) (auto simp: statuses_section_def status_lines_str_dict)

lemma str_keys_dictE:
  assumes "str_keys (VDict d)"
  obtains sd where "d = str_dict sd" "list_all (\<lambda>(k, v). str_keys v) sd"
proof -
  from assms have "\<exists>sd. d = str_dict sd \<and> list_all (\<lambda>(k, v). str_keys v) sd"
  proof (induction d)
    case Nil
    show ?case by (intro exI[of _ "[]"]) simp
  next
    case (Cons kv d)
    obtain k v where kv: "kv = (k, v)" by (cases kv)
    with Cons.prems obtain s where s: "k = KStr s" "str_keys v" "str_keys (VDict d)"
      by (cases k) auto
    with Cons.IH obtain sd where "d = str_dict sd" "list_all (\<lambda>(k, v). str_keys v) sd"
      by blast
    with s kv show ?case
      by (intro exI[of _ "(s, v) # sd"]) simp
  qed
  with that show ?thesis by blast
qed

lemma sub_leaf_str:
  "sub_leaf (KStr k) v result = Inr (result @ ''- '' @ readable k @ '': '' @
     (if names_temperature k \<and> is_int_or_float v then py_str v @ [CHR 0xB0] @ ''C''
      else if names_pressure k \<and> is_int_or_float v then py_str v @ '' bar''
      else if is_bool v then status_text (truthy v)
      else py_str v) @ ''\<newline>'')"
  by (simp add: sub_leaf_def names_temperature_def names_pressure_def)

lemma sub_loop_ok:
  assumes "list_all (\<lambda>(k, v). str_keys v) sub"
  shows "\<exists>out. \<forall>result. sub_loop (str_dict sub) result = Inr (result @ out)"
  using assms
proof (induction sub)
  case Nil
  show ?case by (intro exI[of _ "[]"]) simp
next
  case (Cons kv sub)
  obtain k v where kv: "kv = (k, v)" by (cases kv)
  from Cons obtain out where out: "\<And>result. sub_loop (str_dict sub) result = Inr (result @ out)"
    by auto
  show ?case
  proof (cases v)
    case (VDict ss)
    with Cons.prems kv have "str_keys (VDict ss)" by simp
    then obtain ss' where "ss = str_dict ss'" by (rule str_keys_dictE)
    with VDict kv out show ?thesis
      by (intro exI[of _ "''#### '' @ capitalize k @ ''\<newline>\<newline>'' @ concat (map (\<lambda>(k, v).
            ''- '' @ readable k @ '': '' @ py_str v @ ''\<newline>'') ss') @ out"])
         (simp add: subsub_loop_str_dict)
  qed (use kv out in \<open>auto simp: sub_leaf_str\<close>)
qed

lemma nested_loop_ok:
  assumes "list_all (\<lambda>(k, v). str_keys v) sd"
  shows "\<exists>out. \<forall>result. nested_loop (str_dict sd) result = Inr (result @ out)"
  using assms
proof (induction sd)
  case Nil
  show ?case by (intro exI[of _ "[]"]) simp
next
  case (Cons kv sd)
  obtain k v where kv: "kv = (k, v)" by (cases kv)
  from Cons obtain out where out: "\<And>result. nested_loop (str_dict sd) result = Inr (result @ out)"
    by auto
  show ?case
  proof (cases v)
    case (VDict sub)
    with Cons.prems kv have "str_keys (VDict sub)" by simp
    then obtain sub' where sub': "sub = str_dict sub'" "list_all (\<lambda>(k, v). str_keys v) sub'"
      by (rule str_keys_dictE)
    from sub_loop_ok [OF sub'(2)] obtain o' where
      o': "\<And>result. sub_loop (str_dict sub') result = Inr (result @ o')" by auto
    show ?thesis
    proof (cases "k = ''_metadata''")
      case True
      with VDict kv out show ?thesis by auto
    next
      case False
      with VDict kv out sub' o' show ?thesis
        by (intro exI[of _ "''### '' @ capitalize k @ ''\<newline>\<newline>'' @ o' @ ''\<newline>'' @ out"]) simp
    qed
  qed (use kv out in auto)
qed

lemma nested_loop_dicts_only:
  "nested_loop d result = nested_loop (filter (\<lambda>(k, v). is_dict v) d) result"
proof (induction d arbitrary: result)
  case Nil
  show ?case by simp
next
  case (Cons kv d)
  obtain k v where kv: "kv = (k, v)" by (cases kv)
  show ?case
    by (cases v) (auto simp: kv Cons.IH split: sum.splits)
qed

lemma nested_loop_skips_metadata:
  "nested_loop d result = nested_loop (filter (\<lambda>(k, v). k \<noteq> KStr ''_metadata'') d) result"
proof (induction d arbitrary: result)
  case Nil
  show ?case by simp
next
  case (Cons kv d)
  obtain k v where kv: "kv = (k, v)" by (cases kv)
  show ?case
    by (cases v) (auto simp: kv Cons.IH split: sum.splits)
qed

lemma format_device_state_str_dict:
  assumes "list_all (\<lambda>(k, v). str_keys v) sd"
  shows "\<exists>body. (\<forall>result. nested_loop (str_dict sd) result = Inr (result @ body)) \<and>
     format_device_state (str_dict sd) i = Inr (device_header (str_dict sd) i
       @ (let tk = filter (\<lambda>(k, v). names_temperature k \<and> is_int_or_float v)
                     (map (\<lambda>k. (k, the (map_of sd k))) (map fst sd))
          in if tk = [] then [] else ''### Temperatures\<newline>\<newline>'' @ concat (map (\<lambda>(k, v).
               ''- '' @ readable_temperature k @ '': '' @ py_str v @ [CHR 0xB0] @ ''C\<newline>'') tk) @ ''\<newline>'')
       @ (let sk = filter (\<lambda>(k, v). is_bool v \<and> k \<noteq> ''serialNumber'')
                     (map (\<lambda>k. (k, the (map_of sd k))) (map fst sd))
          in if sk = [] then [] else ''### Status Indicators\<newline>\<newline>'' @ concat (map (\<lambda>(k, v).
               ''- '' @ readable k @ '': '' @ status_text (truthy v) @ ''\<newline>'') sk) @ ''\<newline>'')
       @ body)"
proof -
  from nested_loop_ok [OF assms] obtain body where
    body: "\<And>result. nested_loop (str_dict sd) result = Inr (result @ body)" by auto
  have keys: "set (map fst sd) \<subseteq> fst ` set sd" by simp
  show ?thesis
    apply (intro exI[of _ body] conjI allI body)
    apply (simp only: format_device_state_def map_fst_str_dict
        temperatures_loop_str_dict [OF keys] statuses_loop_str_dict [OF keys] append_Nil
        sum.case temperatures_section_str_dict statuses_section_str_dict body Let_def append_assoc)
    done
qed

subsection \<open>Header and empty record\<close>

lemma format_device_state_header:
  assumes "str_keys (VDict d)"
  shows "\<exists>body. format_device_state d i = Inr (device_header d i @ body)"
proof -
  from assms obtain sd where sd: "d = str_dict sd" "list_all (\<lambda>(k, v). str_keys v) sd"
    by (rule str_keys_dictE)
  from format_device_state_str_dict [OF sd(2), of i] obtain body t u where
    "format_device_state (str_dict sd) i = Inr (device_header (str_dict sd) i @ t @ u @ body)"
    unfolding Let_def by blast
  then show ?thesis
    unfolding sd(1) by (intro exI[of _ "t @ u @ body"]) simp
qed

lemma substr_in_length: "substr_in sub s \<Longrightarrow> length sub \<le> length s"
  by (induction s) (auto dest: prefix_length_le)

lemma substr_in_iff: "substr_in sub s \<longleftrightarrow> (\<exists>a b. s = a @ sub @ b)"
proof (induction s)
  case Nil
  then show ?case by auto
next
  case (Cons c cs)
  show ?case
  proof
    assume "substr_in sub (c # cs)"
    then consider "prefix sub (c # cs)" | "substr_in sub cs" by auto
    then show "\<exists>a b. c # cs = a @ sub @ b"
    proof cases
      case 1
      then obtain b where "c # cs = sub @ b" by (auto simp: prefix_def)
      then show ?thesis by (intro exI[of _ "[]"] exI[of _ b]) simp
    next
      case 2
      with Cons.IH obtain a b where "cs = a @ sub @ b" by blast
      then show ?thesis by (intro exI[of _ "c # a"] exI[of _ b]) simp
    qed
  next
    assume "\<exists>a b. c # cs = a @ sub @ b"
    then obtain a b where ab: "c # cs = a @ sub @ b" by blast
    show "substr_in sub (c # cs)"
    proof (cases a)
      case Nil
      with ab have "prefix sub (c # cs)" by (simp add: prefix_def)
      then show ?thesis by simp
    next
      case (Cons x a')
      with ab have "cs = a' @ sub @ b" by simp
      with Cons.IH show ?thesis by auto
    qed
  qed
qed

lemma isdecimal_digit_chr: "d < 10 \<Longrightarrow> isdecimal (digit_chr d)"
  by (simp add: isdecimal_def digit_chr_def)

lemma str_nat_digits: "c \<in> set (str_nat n) \<Longrightarrow> isdecimal c"
proof (induction n rule: str_nat.induct)
  case (1 n)
  show ?case
  proof (cases "n < 10")
    case True
    with "1.prems" show ?thesis
      by (simp add: str_nat.simps [of n] isdecimal_digit_chr)
  next
    case False
    with "1.prems" have "c \<in> set (str_nat (n div 10)) \<or> c = digit_chr (n mod 10)"
      by (auto simp: str_nat.simps [of n])
    with False "1.IH" show ?thesis
      by (auto simp: isdecimal_digit_chr)
  qed
qed

lemma str_int_chars: "c \<in> set (str_int n) \<Longrightarrow> c = CHR ''-'' \<or> isdecimal c"
  by (auto simp: str_int_def dest: str_nat_digits split: if_splits)

lemma masked_no_hash:
  assumes "CHR ''#'' \<notin> set s"
  shows "filter (\<lambda>c. c = CHR ''#'') (py_str (masked_serial (VStr s))) = []"
proof -
  from assms have "CHR ''#'' \<notin> set (drop 24 s)"
    by (auto dest: in_set_dropD)
  with assms show ?thesis
    by (auto simp: masked_serial_def filter_empty_conv)
qed

lemma label_no_hash: "CHR ''#'' \<notin> set (''Device '' @ str_int n)"
  using str_int_chars [of "CHR ''#''" n] by (auto simp: isdecimal_def)

lemma empty_header:
  "device_header [] i = ''## Device: '' @ py_str (masked_serial (VStr (''Device '' @ str_int (i + 1))))
      @ '' (Unknown)\<newline>\<newline>''"
  by (simp add: device_header_def dict_get_def Let_def)

lemma empty_header_hashes: "filter (\<lambda>c. c = CHR ''#'') (device_header [] i) = ''##''"
  unfolding empty_header filter_append masked_no_hash [OF label_no_hash]
  by simp

lemma empty_header_no_section:
  assumes "substr_in sub (device_header [] i)"
  shows "length (filter (\<lambda>c. c = CHR ''#'') sub) \<le> 2"
proof -
  from assms obtain a b where "device_header [] i = a @ sub @ b"
    unfolding substr_in_iff by blast
  then have "filter (\<lambda>c. c = CHR ''#'') (device_header [] i)
     = filter (\<lambda>c. c = CHR ''#'') (a @ sub @ b)" by simp
  then have "length ''##'' = length (filter (\<lambda>c. c = CHR ''#'') (a @ sub @ b))"
    unfolding empty_header_hashes by (rule arg_cong)
  then show ?thesis by simp
qed

lemma format_device_state_empty: "format_device_state [] i = Inr (device_header [] i)"
  by (simp add: format_device_state_def temperatures_section_def statuses_section_def)

lemma device_header_nonempty: "device_header d i \<noteq> []"
  by (simp add: device_header_def Let_def)

lemma no_temperatures_in_empty: "\<not> substr_in ''### Temperatures'' (device_header [] i)"
proof
  assume "substr_in ''### Temperatures'' (device_header [] i)"
  then have "length (filter (\<lambda>c. c = CHR ''#'') ''### Temperatures'') \<le> 2"
    by (rule empty_header_no_section)
  then show False by simp
qed

lemma no_statuses_in_empty: "\<not> substr_in ''### Status Indicators'' (device_header [] i)"
proof
  assume "substr_in ''### Status Indicators'' (device_header [] i)"
  then have "length (filter (\<lambda>c. c = CHR ''#'') ''### Status Indicators'') \<le> 2"
    by (rule empty_header_no_section)
  then show False by simp
qed

lemma str_int_1: "str_int 1 = ''1''"
  by (simp add: str_int_def str_nat.simps digit_chr_def char_of_eq_iff)

lemma empty_at_0: "format_device_state [] 0 = Inr ''## Device: Device 1 (Unknown)\<newline>\<newline>''"
  by (simp add: format_device_state_empty device_header_def dict_get_def masked_serial_def
      Let_def str_int_1)


lemma ill_formed_key_raises: "format_device_state [(KInt 1, VInt 21)] 0 = Inl AttributeError"
  by (simp add: format_device_state_def)

subsection \<open>Claims on the formatter\<close>

lemma str_nat_length: "n < 10 ^ Suc k \<Longrightarrow> length (str_nat n) \<le> Suc k"
proof (induction k arbitrary: n)
  case 0
  then show ?case by (simp add: str_nat.simps [of n])
next
  case (Suc k)
  show ?case
  proof (cases "n < 10")
    case True
    then show ?thesis by (simp add: str_nat.simps [of n])
  next
    case False
    from Suc.prems have "n div 10 < 10 ^ Suc k" by (simp add: less_mult_imp_div_less)
    then have "length (str_nat (n div 10)) \<le> Suc k" by (rule Suc.IH)
    with False show ?thesis by (simp add: str_nat.simps [of n])
  qed
qed

lemma label_length:
  assumes "0 \<le> i" "i < 99999999999999999"
  shows "length (''Device '' @ str_int (i + 1)) \<le> 24"
proof -
  from assms have "nat (i + 1) < 10 ^ Suc 16" by simp
  then have "length (str_nat (nat (i + 1))) \<le> Suc 16" by (rule str_nat_length)
  with assms show ?thesis by (simp add: str_int_def)
qed


lemma eq_char_of_iff: "c = char_of (n :: nat) \<longleftrightarrow> take_bit 8 n = of_char c"
  using char_of_eq_iff [of n c] by auto

lemmas eval_simps =
  format_device_state_def temperatures_section_def statuses_section_def device_header_def
  dict_get_def dict_item_def masked_serial_def sub_leaf_def Let_def
  readable_def readable_temperature_def strip_def space_upper_def status_text_def
  lower_def lower_chr_def title_chr_def isupper_def islower_def isspace_def
  str_int_def str_nat.simps digit_chr_def char_of_eq_iff eq_char_of_iff

lemma nested_loop_append:
  "nested_loop (xs @ ys) result =
     (case nested_loop xs result of Inl e \<Rightarrow> Inl e | Inr result' \<Rightarrow> nested_loop ys result')"
proof (induction xs arbitrary: result)
  case Nil
  show ?case by simp
next
  case (Cons kv xs)
  obtain k v where kv: "kv = (k, v)" by (cases kv)
  show ?case
    by (cases v) (auto simp: kv Cons.IH split: sum.splits)
qed

text \<open>
  The first 24 characters of a long serial have no influence on the report: two records
  that differ only in them have the same report.
\<close>

lemma report_ignores_serial_prefix:
  assumes pre: "KStr ''serialNumber'' \<notin> fst ` set pre"
    and len: "length s > 24" "length s' > 24"
    and suffix: "drop 24 s = drop 24 s'"
  shows "format_device_state (pre @ (KStr ''serialNumber'', VStr s) # post) i
       = format_device_state (pre @ (KStr ''serialNumber'', VStr s') # post) i"
proof -
  let ?K = "KStr ''serialNumber''"
  let ?d = "pre @ (?K, VStr s) # post"
  let ?d' = "pre @ (?K, VStr s') # post"
  from pre have none: "map_of pre ?K = None"
    by (simp add: map_of_eq_None_iff)
  have other: "map_of ?d k = map_of ?d' k" if "k \<noteq> ?K" for k
    using that by (simp add: map_add_def split: option.splits)
  have serial: "map_of ?d ?K = Some (VStr s)" "map_of ?d' ?K = Some (VStr s')"
    using none by (simp_all add: map_add_def)
  have di: "dict_item ?d ?K = Inr (VStr s)" "dict_item ?d' ?K = Inr (VStr s')"
    by (simp_all only: dict_item_def serial option.case)
  have T: "temperatures_loop ?d ks acc = temperatures_loop ?d' ks acc" for ks acc
  proof (induction ks arbitrary: acc)
    case Nil
    show ?case by simp
  next
    case (Cons key ks)
    show ?case
    proof (cases "key = ?K")
      case True
      then show ?thesis by (simp add: Cons.IH split: sum.splits)
    next
      case False
      then have "dict_item ?d key = dict_item ?d' key"
        by (simp only: dict_item_def other [OF False])
      then show ?thesis by (simp add: Cons.IH split: sum.splits)
    qed
  qed
  have S: "statuses_loop ?d ks acc = statuses_loop ?d' ks acc" for ks acc
  proof (induction ks arbitrary: acc)
    case Nil
    show ?case by simp
  next
    case (Cons key ks)
    show ?case
    proof (cases "key = ?K")
      case True
      then show ?thesis
        by (simp add: di Cons.IH)
    next
      case False
      then have "dict_item ?d key = dict_item ?d' key"
        by (simp only: dict_item_def other [OF False])
      then show ?thesis by (simp add: Cons.IH split: sum.splits)
    qed
  qed
  have N: "nested_loop ?d result = nested_loop ?d' result" for result
    by (simp add: nested_loop_append split: sum.splits)
  have g1: "dict_get ?d ?K x = VStr s" "dict_get ?d' ?K x = VStr s'" for x
    by (simp_all only: dict_get_def serial option.case)
  have ty: "KStr ''type'' \<noteq> ?K" by simp
  have g2: "dict_get ?d (KStr ''type'') x = dict_get ?d' (KStr ''type'') x" for x
    by (simp only: dict_get_def other [OF ty])
  have H: "device_header ?d i = device_header ?d' i"
    unfolding device_header_def Let_def g1 g2
    using len suffix by (simp add: masked_serial_def)
  have K: "map fst ?d = map fst ?d'" by simp
  show ?thesis
    unfolding format_device_state_def K T S H N ..
qed

text \<open>
  C6. When \<open>serialNumber\<close> is present with a string value of more than 24 characters, the
  report starts with a header that shows the marker \<open>V\<close> followed by the characters of
  the serial after the first 24, and nothing else of it: the serial does not occur in the
  identity shown. A serial of 30 characters is shown as \<open>V\<close> and its last 6 characters.
  (By \<open>report_ignores_serial_prefix\<close> the rest of the report does not show the entry
  either.)
\<close>

theorem header_masks_long_serial:
  assumes "str_keys (VDict d)"
    and "map_of d (KStr ''serialNumber'') = Some (VStr s)"
    and "length s > 24"
  shows "(\<exists>body. format_device_state d i = Inr (''## Device: V'' @ drop 24 s @ '' (''
              @ py_str (dict_get d (KStr ''type'') (VStr ''Unknown'')) @ '')\<newline>\<newline>'' @ body))
     \<and> \<not> substr_in s (''V'' @ drop 24 s)
     \<and> (length s = 30 \<longrightarrow> length (drop 24 s) = 6 \<and> drop 24 s = rev (take 6 (rev s)))"
proof -
  from format_device_state_header [OF assms(1), of i] obtain body where
    "format_device_state d i = Inr (device_header d i @ body)" by blast
  moreover have "device_header d i = ''## Device: V'' @ drop 24 s @ '' (''
              @ py_str (dict_get d (KStr ''type'') (VStr ''Unknown'')) @ '')\<newline>\<newline>''"
    using assms(2,3) by (simp add: device_header_def dict_get_def masked_serial_def Let_def)
  ultimately have A: "\<exists>body. format_device_state d i = Inr (''## Device: V'' @ drop 24 s @ '' (''
              @ py_str (dict_get d (KStr ''type'') (VStr ''Unknown'')) @ '')\<newline>\<newline>'' @ body)"
    by (intro exI[of _ body]) simp
  have B: "\<not> substr_in s (''V'' @ drop 24 s)"
  proof
    assume "substr_in s (''V'' @ drop 24 s)"
    then have "length s \<le> length (''V'' @ drop 24 s)" by (rule substr_in_length)
    with assms(3) show False by simp
  qed
  have C: "length (drop 24 s) = 6 \<and> drop 24 s = rev (take 6 (rev s))" if "length s = 30"
    using that by (simp add: take_rev)
  from A B C show ?thesis by blast
qed

theorem header_masks_long_serial_witness:
  "str_keys (VDict [(KStr ''serialNumber'', VStr ''212345678901234567890123ABCDEF''),
                    (KStr ''type'', VStr ''HEATPUMP'')])
   \<and> map_of [(KStr ''serialNumber'', VStr ''212345678901234567890123ABCDEF''),
              (KStr ''type'', VStr ''HEATPUMP'')] (KStr ''serialNumber'')
        = Some (VStr ''212345678901234567890123ABCDEF'')
   \<and> length ''212345678901234567890123ABCDEF'' = 30
   \<and> format_device_state [(KStr ''serialNumber'', VStr ''212345678901234567890123ABCDEF''),
              (KStr ''type'', VStr ''HEATPUMP'')] 0 = Inr ''## Device: VABCDEF (HEATPUMP)\<newline>\<newline>''
   \<and> \<not> substr_in ''212345678901234567890123ABCDEF'' ''VABCDEF''
   \<and> drop 24 ''212345678901234567890123ABCDEF'' = ''ABCDEF''"
proof -
  let ?s = "''212345678901234567890123ABCDEF''"
  let ?d = "[(KStr ''serialNumber'', VStr ?s), (KStr ''type'', VStr ''HEATPUMP'')]"
  have h1: "str_keys (VDict ?d)" by simp
  have h2: "map_of ?d (KStr ''serialNumber'') = Some (VStr ?s)" by simp
  have h3: "length ?s > 24" by simp
  have h4: "length ?s = 30" by simp
  have ev: "format_device_state ?d 0 = Inr ''## Device: VABCDEF (HEATPUMP)\<newline>\<newline>''"
    by (simp add: format_device_state_def temperatures_section_def statuses_section_def
        device_header_def dict_get_def dict_item_def masked_serial_def Let_def lower_def
        lower_chr_def isupper_def char_of_eq_iff)
  from header_masks_long_serial [OF h1 h2 h3, of 0] h1 h2 h4 ev
  show ?thesis by simp
qed

text \<open>
  C10, as stated, fails for a very large index: the default label \<open>Device {index+1}\<close> goes
  through the same masking as a serial, so a label of more than 24 characters is cut.
\<close>

theorem default_label_masked:
  "format_device_state [] 99999999999999999 = Inr ''## Device: V0 (Unknown)\<newline>\<newline>''"
  by (simp add: format_device_state_empty device_header_def dict_get_def masked_serial_def
      Let_def str_int_def str_nat.simps digit_chr_def char_of_eq_iff)

text \<open>
  C10, amended. The report of a well-formed record starts with the header. When
  \<open>serialNumber\<close> is absent and the label \<open>Device {index+1}\<close> has at most 24 characters
  (as it has for every index from 0 up to 99999999999999998), the header identifies the
  device by that label; a missing \<open>type\<close> is shown as \<open>Unknown\<close>; a \<open>serialNumber\<close> that is
  a string of at most 24 characters, or not a string, is printed as \<open>str\<close> prints it,
  unmasked.
\<close>

theorem header_identity_unmasked:
  assumes "str_keys (VDict d)"
  shows "(\<exists>body. format_device_state d i = Inr (device_header d i @ body))
   \<and> (map_of d (KStr ''serialNumber'') = None \<and> length (''Device '' @ str_int (i + 1)) \<le> 24 \<longrightarrow>
        device_header d i = ''## Device: Device '' @ str_int (i + 1) @ '' (''
              @ py_str (dict_get d (KStr ''type'') (VStr ''Unknown'')) @ '')\<newline>\<newline>'')
   \<and> (0 \<le> i \<and> i < 99999999999999999 \<longrightarrow> length (''Device '' @ str_int (i + 1)) \<le> 24)
   \<and> (map_of d (KStr ''type'') = None \<longrightarrow>
        device_header d i = ''## Device: ''
              @ py_str (masked_serial (dict_get d (KStr ''serialNumber'')
                                        (VStr (''Device '' @ str_int (i + 1)))))
              @ '' (Unknown)\<newline>\<newline>'')
   \<and> (map_of d (KStr ''serialNumber'') = Some (VStr s) \<and> length s \<le> 24 \<longrightarrow>
        device_header d i = ''## Device: '' @ s @ '' (''
              @ py_str (dict_get d (KStr ''type'') (VStr ''Unknown'')) @ '')\<newline>\<newline>'')
   \<and> (map_of d (KStr ''serialNumber'') = Some v \<and> \<not> is_str v \<longrightarrow>
        device_header d i = ''## Device: '' @ py_str v @ '' (''
              @ py_str (dict_get d (KStr ''type'') (VStr ''Unknown'')) @ '')\<newline>\<newline>'')"
proof -
  have A: "device_header d i = ''## Device: Device '' @ str_int (i + 1) @ '' (''
              @ py_str (dict_get d (KStr ''type'') (VStr ''Unknown'')) @ '')\<newline>\<newline>''"
    if "map_of d (KStr ''serialNumber'') = None" "length (''Device '' @ str_int (i + 1)) \<le> 24"
    using that by (simp add: device_header_def dict_get_def masked_serial_def Let_def)
  have B: "device_header d i = ''## Device: ''
              @ py_str (masked_serial (dict_get d (KStr ''serialNumber'')
                                        (VStr (''Device '' @ str_int (i + 1)))))
              @ '' (Unknown)\<newline>\<newline>''"
    if "map_of d (KStr ''type'') = None"
    using that by (simp add: device_header_def dict_get_def Let_def)
  have C: "device_header d i = ''## Device: '' @ s @ '' (''
              @ py_str (dict_get d (KStr ''type'') (VStr ''Unknown'')) @ '')\<newline>\<newline>''"
    if "map_of d (KStr ''serialNumber'') = Some (VStr s)" "length s \<le> 24"
    using that by (simp add: device_header_def dict_get_def masked_serial_def Let_def)
  have D: "device_header d i = ''## Device: '' @ py_str v @ '' (''
              @ py_str (dict_get d (KStr ''type'') (VStr ''Unknown'')) @ '')\<newline>\<newline>''"
    if "map_of d (KStr ''serialNumber'') = Some v" "\<not> is_str v"
    using that by (cases v) (simp_all add: device_header_def dict_get_def masked_serial_def Let_def)
  from format_device_state_header [OF assms, of i] A B C D label_length [of i]
  show ?thesis by blast
qed

theorem header_identity_unmasked_witness:
  "str_keys (VDict []) \<and> map_of [] (KStr ''serialNumber'') = (None :: pyval option)
   \<and> map_of [] (KStr ''type'') = (None :: pyval option)
   \<and> (0 :: int) \<le> 0 \<and> (0 :: int) < 99999999999999999
   \<and> device_header [] 0 = ''## Device: Device 1 (Unknown)\<newline>\<newline>''
   \<and> (\<exists>body. format_device_state [] 0 = Inr (''## Device: Device 1 (Unknown)\<newline>\<newline>'' @ body))
   \<and> str_keys (VDict [(KStr ''serialNumber'', VStr ''21234567890123456789ABCD''),
                      (KStr ''type'', VStr ''HEATPUMP'')])
   \<and> map_of [(KStr ''serialNumber'', VStr ''21234567890123456789ABCD''),
              (KStr ''type'', VStr ''HEATPUMP'')] (KStr ''serialNumber'')
        = Some (VStr ''21234567890123456789ABCD'')
   \<and> length ''21234567890123456789ABCD'' \<le> 24
   \<and> device_header [(KStr ''serialNumber'', VStr ''21234567890123456789ABCD''),
              (KStr ''type'', VStr ''HEATPUMP'')] 0
        = ''## Device: 21234567890123456789ABCD (HEATPUMP)\<newline>\<newline>''
   \<and> str_keys (VDict [(KStr ''serialNumber'', VInt 1234567890123456789012345678)])
   \<and> map_of [(KStr ''serialNumber'', VInt 1234567890123456789012345678)] (KStr ''serialNumber'')
        = Some (VInt 1234567890123456789012345678)
   \<and> \<not> is_str (VInt 1234567890123456789012345678)
   \<and> device_header [(KStr ''serialNumber'', VInt 1234567890123456789012345678)] 0
        = ''## Device: 1234567890123456789012345678 (Unknown)\<newline>\<newline>''"
proof -
  let ?d2 = "[(KStr ''serialNumber'', VStr ''21234567890123456789ABCD''),
              (KStr ''type'', VStr ''HEATPUMP'')]"
  let ?d3 = "[(KStr ''serialNumber'', VInt 1234567890123456789012345678)]"
  have a1: "str_keys (VDict [])" by simp
  have a2: "str_keys (VDict ?d2)" by simp
  have a3: "str_keys (VDict ?d3)" by simp
  have n: "str_int 1234567890123456789012345678 = ''1234567890123456789012345678''"
    by (simp add: str_int_def str_nat.simps digit_chr_def char_of_eq_iff)
  note t1 = header_identity_unmasked [OF a1, of 0]
  note t2 = header_identity_unmasked [OF a2, of 0 "''21234567890123456789ABCD''"]
  note t3 = header_identity_unmasked [OF a3, of 0 _ "VInt 1234567890123456789012345678"]
  from t1 have h1: "device_header [] 0 = ''## Device: Device 1 (Unknown)\<newline>\<newline>''"
    by (simp add: dict_get_def str_int_1)
  from t1 have "\<exists>body. format_device_state [] 0 = Inr (device_header [] 0 @ body)"
    by (rule conjunct1)
  then have b1: "\<exists>body. format_device_state [] 0
      = Inr (''## Device: Device 1 (Unknown)\<newline>\<newline>'' @ body)"
    unfolding h1 .
  from t2 have h2: "device_header ?d2 0
      = ''## Device: 21234567890123456789ABCD (HEATPUMP)\<newline>\<newline>''"
    by (simp add: dict_get_def)
  from t3 have h3: "device_header ?d3 0
      = ''## Device: 1234567890123456789012345678 (Unknown)\<newline>\<newline>''"
    by (simp add: dict_get_def n masked_serial_def)
  from a1 a2 a3 h1 b1 h2 h3 show ?thesis
    by simp
qed

text \<open>
  C3. The temperature branch does not produce the readable name the claim describes:
  \<open>roomTemperatureTarget\<close> is shown as \<open>Room  temperature target\<close>, with two spaces,
  in the Temperatures section, while the nested-section branch (and the status branch,
  through \<open>readable\<close>) shows \<open>Room temperature target\<close>.
\<close>

theorem temperature_name_double_space:
  "format_device_state [(KStr ''roomTemperatureTarget'', VInt 21)] 0
     = Inr (''## Device: Device 1 (Unknown)\<newline>\<newline>### Temperatures\<newline>\<newline>''
            @ ''- Room  temperature target: 21'' @ [CHR 0xB0] @ ''C\<newline>\<newline>'')
   \<and> format_device_state [(KStr ''zone'', VDict [(KStr ''roomTemperatureTarget'', VInt 21)])] 0
     = Inr (''## Device: Device 1 (Unknown)\<newline>\<newline>### Zone\<newline>\<newline>''
            @ ''- Room temperature target: 21'' @ [CHR 0xB0] @ ''C\<newline>\<newline>'')
   \<and> readable_temperature ''roomTemperatureTarget'' = ''Room  temperature target''
   \<and> readable ''roomTemperatureTarget'' = ''Room temperature target''"
  by (simp add: eval_simps)

lemma single_section:
  assumes "k0 \<noteq> ''_metadata''"
  shows "format_device_state [(KStr k0, VDict sub)] i =
     (case sub_loop sub (device_header [(KStr k0, VDict sub)] i
                          @ ''### '' @ capitalize k0 @ ''\<newline>\<newline>'') of
        Inl e \<Rightarrow> Inl e
      | Inr result \<Rightarrow> Inr (result @ ''\<newline>''))"
  using assms
  by (simp add: format_device_state_def dict_item_def temperatures_section_def
      statuses_section_def split: sum.splits)

text \<open>
  C4, as stated, fails: inside a nested section an entry whose key contains
  \<open>temperature\<close> or \<open>pressure\<close> gets no unit when its value is not a number.
\<close>

theorem nested_text_without_unit:
  "format_device_state
     [(KStr ''circuit'', VDict [(KStr ''temperatureUnit'', VStr ''celsius''),
                                (KStr ''pressureState'', VStr ''ok'')])] 0
   = Inr (''## Device: Device 1 (Unknown)\<newline>\<newline>### Circuit\<newline>\<newline>''
          @ ''- Temperature unit: celsius\<newline>- Pressure state: ok\<newline>\<newline>'')"
  by (simp add: eval_simps)

text \<open>
  C4, amended. In the loop over the entries of a top-level nested mapping, an entry whose
  value is a number (an integer or a float, not a boolean) is rendered with the suffix
  \<open>\<degree>C\<close> when its key contains \<open>temperature\<close> (in any case), else with the suffix \<open> bar\<close>
  when its key contains \<open>pressure\<close>, else unmodified; a boolean whose key contains neither
  is rendered as \<open>Active\<close> or \<open>Inactive\<close>; a string or \<open>None\<close> is rendered unmodified
  whatever its key; an entry whose value is itself a mapping becomes a sub-section titled
  by the capitalised key, its entries rendered as \<open>- <readable name>: <value>\<close> with no
  unit inference and no further recursion. A record that holds one nested mapping, under
  a key other than \<open>_metadata\<close>, is rendered as the header, the section title, the
  output of this loop and a blank line.
\<close>

theorem nested_entry_rendering:
  "sub_loop ((KStr k, VInt n) # rest) result =
     sub_loop rest (result @ ''- '' @ readable k @ '': '' @ str_int n
       @ (if names_temperature k then [CHR 0xB0] @ ''C''
          else if names_pressure k then '' bar'' else []) @ ''\<newline>'')
   \<and> sub_loop ((KStr k, VFloat t) # rest) result =
     sub_loop rest (result @ ''- '' @ readable k @ '': '' @ t
       @ (if names_temperature k then [CHR 0xB0] @ ''C''
          else if names_pressure k then '' bar'' else []) @ ''\<newline>'')
   \<and> (\<not> names_temperature k \<and> \<not> names_pressure k \<longrightarrow>
        sub_loop ((KStr k, VBool b) # rest) result =
          sub_loop rest (result @ ''- '' @ readable k @ '': ''
            @ (if b then ''Active'' else ''Inactive'') @ ''\<newline>''))
   \<and> sub_loop ((KStr k, VStr s) # rest) result =
     sub_loop rest (result @ ''- '' @ readable k @ '': '' @ s @ ''\<newline>'')
   \<and> sub_loop ((KStr k, VNone) # rest) result =
     sub_loop rest (result @ ''- '' @ readable k @ '': None\<newline>'')
   \<and> sub_loop ((KStr k, VDict (str_dict ss)) # rest) result =
     sub_loop rest (result @ ''#### '' @ capitalize k @ ''\<newline>\<newline>''
       @ concat (map (\<lambda>(k', v'). ''- '' @ readable k' @ '': '' @ py_str v' @ ''\<newline>'') ss))
   \<and> sub_loop [] result = Inr result
   \<and> (k0 \<noteq> ''_metadata'' \<longrightarrow>
        format_device_state [(KStr k0, VDict sub)] i =
          (case sub_loop sub (device_header [(KStr k0, VDict sub)] i
                               @ ''### '' @ capitalize k0 @ ''\<newline>\<newline>'') of
             Inl e \<Rightarrow> Inl e
           | Inr result' \<Rightarrow> Inr (result' @ ''\<newline>'')))"
  using single_section [of k0 sub i]
  by (simp add: sub_leaf_str subsub_loop_str_dict status_text_def)

theorem nested_entry_rendering_witness:
  "\<not> names_temperature ''pumpRunning'' \<and> \<not> names_pressure ''pumpRunning''
   \<and> sub_loop [(KStr ''pumpRunning'', VBool True)] [] = Inr ''- Pump running: Active\<newline>''
   \<and> ''circuit'' \<noteq> ''_metadata''
   \<and> format_device_state
       [(KStr ''circuit'', VDict [(KStr ''flowTemperature'', VInt 35),
                                  (KStr ''waterPressure'', VFloat ''1.4''),
                                  (KStr ''pumpRunning'', VBool True),
                                  (KStr ''mode'', VStr ''AUTO''),
                                  (KStr ''zone'', VDict [(KStr ''roomTemperature'', VInt 20),
                                                         (KStr ''active'', VBool True)])])] 0
     = Inr (''## Device: Device 1 (Unknown)\<newline>\<newline>### Circuit\<newline>\<newline>''
            @ ''- Flow temperature: 35'' @ [CHR 0xB0] @ ''C\<newline>''
            @ ''- Water pressure: 1.4 bar\<newline>''
            @ ''- Pump running: Active\<newline>''
            @ ''- Mode: AUTO\<newline>''
            @ ''#### Zone\<newline>\<newline>''
            @ ''- Room temperature: 20\<newline>''
            @ ''- Active: True\<newline>''
            @ ''\<newline>'')"
proof -
  let ?sub = "[(KStr ''flowTemperature'', VInt 35), (KStr ''waterPressure'', VFloat ''1.4''),
               (KStr ''pumpRunning'', VBool True), (KStr ''mode'', VStr ''AUTO''),
               (KStr ''zone'', VDict [(KStr ''roomTemperature'', VInt 20),
                                      (KStr ''active'', VBool True)])]"
  have n: "\<not> names_temperature ''pumpRunning''" "\<not> names_pressure ''pumpRunning''"
    unfolding names_temperature_def names_pressure_def by code_simp+
  have r: "readable ''pumpRunning'' = ''Pump running''"
    by (simp add: eval_simps)
  from nested_entry_rendering [of "''pumpRunning''" _ "[]" "[]" _ True] n
  have w1: "sub_loop [(KStr ''pumpRunning'', VBool True)] [] = Inr ''- Pump running: Active\<newline>''"
    by (simp add: r)
  from nested_entry_rendering [where ?k0.0 = "''circuit''" and sub = ?sub and i = 0]
  have e: "format_device_state [(KStr ''circuit'', VDict ?sub)] 0 =
          (case sub_loop ?sub (device_header [(KStr ''circuit'', VDict ?sub)] 0
                               @ ''### '' @ capitalize ''circuit'' @ ''\<newline>\<newline>'') of
             Inl e \<Rightarrow> Inl e
           | Inr result' \<Rightarrow> Inr (result' @ ''\<newline>''))"
    by simp
  have w2: "format_device_state [(KStr ''circuit'', VDict ?sub)] 0
     = Inr (''## Device: Device 1 (Unknown)\<newline>\<newline>### Circuit\<newline>\<newline>''
            @ ''- Flow temperature: 35'' @ [CHR 0xB0] @ ''C\<newline>''
            @ ''- Water pressure: 1.4 bar\<newline>''
            @ ''- Pump running: Active\<newline>''
            @ ''- Mode: AUTO\<newline>''
            @ ''#### Zone\<newline>\<newline>''
            @ ''- Room temperature: 20\<newline>''
            @ ''- Active: True\<newline>''
            @ ''\<newline>'')"
    unfolding e by (simp add: eval_simps)
  from n w1 w2 show ?thesis by simp
qed

lemma temperatures_loop_keys:
  assumes "temperatures_loop d ks acc = Inr temps"
  shows "fst ` set temps \<subseteq> fst ` set acc \<union> {KStr k | k. names_temperature k \<and> k \<noteq> ''serialNumber''}"
  using assms
proof (induction ks arbitrary: acc)
  case Nil
  then show ?case by auto
next
  case (Cons key ks)
  show ?case
  proof (cases key)
    case (KStr k)
    show ?thesis
    proof (cases "names_temperature k \<and> k \<noteq> ''serialNumber'' \<and>
        (\<exists>v. dict_item d key = Inr v \<and> is_int_or_float v)")
      case True
      then obtain v where v: "dict_item d key = Inr v" "is_int_or_float v" by blast
      with True KStr Cons.prems have "temperatures_loop d ks (acc @ [(key, v)]) = Inr temps"
        by (simp add: names_temperature_def)
      from Cons.IH [OF this] True KStr show ?thesis by auto
    next
      case False
      with KStr Cons.prems have "temperatures_loop d ks acc = Inr temps"
        by (auto simp: names_temperature_def split: sum.splits if_splits)
      from Cons.IH [OF this] show ?thesis .
    qed
  next
    case (KInt n)
    with Cons.prems show ?thesis by simp
  qed
qed

lemma statuses_loop_keys:
  assumes "statuses_loop d ks acc = Inr stats"
  shows "fst ` set stats \<subseteq> fst ` set acc \<union> {k. k \<noteq> KStr ''serialNumber''}"
  using assms
proof (induction ks arbitrary: acc)
  case Nil
  then show ?case by auto
next
  case (Cons key ks)
  show ?case
  proof (cases "\<exists>v. dict_item d key = Inr v \<and> is_bool v \<and> key \<noteq> KStr ''serialNumber''")
    case True
    then obtain v where v: "dict_item d key = Inr v" "is_bool v" "key \<noteq> KStr ''serialNumber''"
      by blast
    with Cons.prems have "statuses_loop d ks (acc @ [(key, v)]) = Inr stats"
      by simp
    from Cons.IH [OF this] v show ?thesis by auto
  next
    case False
    with Cons.prems have "statuses_loop d ks acc = Inr stats"
      by (auto split: sum.splits if_splits)
    from Cons.IH [OF this] show ?thesis .
  qed
qed

text \<open>
  C5, as stated, fails: a boolean \<open>_metadata\<close> is listed under Status Indicators, and a
  \<open>serialNumber\<close> whose value is a mapping gets a nested section of its own.
\<close>

theorem metadata_status_serial_section:
  "format_device_state [(KStr ''_metadata'', VBool True)] 0
     = Inr ''## Device: Device 1 (Unknown)\<newline>\<newline>### Status Indicators\<newline>\<newline>- _metadata: Active\<newline>\<newline>''
   \<and> format_device_state [(KStr ''serialNumber'', VDict [(KStr ''id'', VInt 7)])] 0
     = Inr (''## Device: {'' @ [CHR 0x27] @ ''id'' @ [CHR 0x27] @ '': 7} (Unknown)\<newline>\<newline>''
            @ ''### Serialnumber\<newline>\<newline>- Id: 7\<newline>\<newline>'')"
  by (simp add: eval_simps repr_str_def repr_chr_def)

text \<open>
  C5, amended. Whatever the values are, the list of temperature fields never holds the
  key \<open>serialNumber\<close> (nor \<open>_metadata\<close>, whose name has no \<open>temperature\<close> in it), the
  list of status fields never holds the key \<open>serialNumber\<close>, and the nested sections are
  those of the record without its \<open>_metadata\<close> entry.
\<close>

theorem excluded_keys:
  "(temperatures_loop d (map fst d) [] = Inr temps \<longrightarrow>
      KStr ''serialNumber'' \<notin> fst ` set temps \<and> KStr ''_metadata'' \<notin> fst ` set temps)
   \<and> (statuses_loop d (map fst d) [] = Inr stats \<longrightarrow> KStr ''serialNumber'' \<notin> fst ` set stats)
   \<and> nested_loop d result = nested_loop (filter (\<lambda>(k, v). k \<noteq> KStr ''_metadata'') d) result"
proof -
  have A: "KStr ''serialNumber'' \<notin> fst ` set temps \<and> KStr ''_metadata'' \<notin> fst ` set temps"
    if "temperatures_loop d (map fst d) [] = Inr temps"
    using temperatures_loop_keys [OF that] metadata_not_temperature by auto
  have B: "KStr ''serialNumber'' \<notin> fst ` set stats"
    if "statuses_loop d (map fst d) [] = Inr stats"
    using statuses_loop_keys [OF that] by auto
  from A B nested_loop_skips_metadata [of d result] show ?thesis by blast
qed

theorem excluded_keys_witness:
  "temperatures_loop [(KStr ''serialNumber'', VInt 5), (KStr ''_metadata'', VInt 1),
                      (KStr ''flowTemperature'', VInt 35), (KStr ''on'', VBool True)]
       (map fst [(KStr ''serialNumber'', VInt 5), (KStr ''_metadata'', VInt 1),
                 (KStr ''flowTemperature'', VInt 35), (KStr ''on'', VBool True)]) []
     = Inr [(KStr ''flowTemperature'', VInt 35)]
   \<and> KStr ''serialNumber'' \<notin> fst ` set [(KStr ''flowTemperature'', VInt 35)]
   \<and> KStr ''_metadata'' \<notin> fst ` set [(KStr ''flowTemperature'', VInt 35)]
   \<and> statuses_loop [(KStr ''serialNumber'', VBool True), (KStr ''on'', VBool True)]
       (map fst [(KStr ''serialNumber'', VBool True), (KStr ''on'', VBool True)]) []
     = Inr [(KStr ''on'', VBool True)]
   \<and> KStr ''serialNumber'' \<notin> fst ` set [(KStr ''on'', VBool True)]
   \<and> nested_loop [(KStr ''_metadata'', VDict [(KStr ''a'', VInt 1)]),
                   (KStr ''zone'', VDict [(KStr ''on'', VBool True)])] []
     = nested_loop [(KStr ''zone'', VDict [(KStr ''on'', VBool True)])] []"
proof -
  let ?d1 = "[(KStr ''serialNumber'', VInt 5), (KStr ''_metadata'', VInt 1),
              (KStr ''flowTemperature'', VInt 35), (KStr ''on'', VBool True)]"
  let ?d2 = "[(KStr ''serialNumber'', VBool True), (KStr ''on'', VBool True)]"
  let ?d3 = "[(KStr ''_metadata'', VDict [(KStr ''a'', VInt 1)]),
              (KStr ''zone'', VDict [(KStr ''on'', VBool True)])]"
  have n: "\<not> substr_in ''temperature'' (lower ''serialNumber'')"
      "\<not> substr_in ''temperature'' (lower ''_metadata'')"
      "substr_in ''temperature'' (lower ''flowTemperature'')"
      "\<not> substr_in ''temperature'' (lower ''on'')"
    by code_simp+
  have h1: "temperatures_loop ?d1 (map fst ?d1) [] = Inr [(KStr ''flowTemperature'', VInt 35)]"
    by (simp add: n dict_item_def)
  have h2: "statuses_loop ?d2 (map fst ?d2) [] = Inr [(KStr ''on'', VBool True)]"
    by (simp add: dict_item_def)
  from excluded_keys [of ?d1 "[(KStr ''flowTemperature'', VInt 35)]"] h1
  have c1: "KStr ''serialNumber'' \<notin> fst ` set [(KStr ''flowTemperature'', VInt 35)]"
      "KStr ''_metadata'' \<notin> fst ` set [(KStr ''flowTemperature'', VInt 35)]"
    by blast+
  from excluded_keys [of ?d2 _ "[(KStr ''on'', VBool True)]"] h2
  have c2: "KStr ''serialNumber'' \<notin> fst ` set [(KStr ''on'', VBool True)]"
    by blast
  from excluded_keys [of ?d3 _ _ "[]"]
  have c3: "nested_loop ?d3 [] = nested_loop [(KStr ''zone'', VDict [(KStr ''on'', VBool True)])] []"
    by simp
  from h1 c1 h2 c2 c3 show ?thesis by blast
qed

lemma str_keys_str_dict:
  "str_keys (VDict (str_dict sd)) = list_all (\<lambda>(k, v). str_keys v) sd"
  by (induction sd) auto

lemma distinct_count_list_1: "distinct ys \<Longrightarrow> y \<in> set ys \<Longrightarrow> count_list ys y = 1"
  by (induction ys) auto

lemma count_keys_filter:
  assumes "distinct (map fst xs)" "(k, v) \<in> set xs" "P (k, v)"
  shows "count_list (map fst (filter P xs)) k = 1"
proof -
  from assms(1) have "distinct (map fst (filter P xs))" by (rule distinct_map_filter)
  moreover from assms(2,3) have "k \<in> set (map fst (filter P xs))" by force
  ultimately show ?thesis by (rule distinct_count_list_1)
qed

lemma str_dict_inj: "str_dict a = str_dict b \<Longrightarrow> a = b"
  unfolding str_dict_def by (rule map_injective) (auto simp: inj_on_def)

text \<open>
  What the two loops guarantee. For a well-formed record whose keys are distinct, the
  report is the header, the Temperatures section with one line per entry of the list
  \<open>tk\<close>, the Status Indicators section with one line per entry of the list \<open>sk\<close>, and
  the nested sections, which depend on the mapping-valued entries only. Both lists are
  subsequences of the record, so insertion order is kept. Every entry whose value is a
  number (not a boolean) and whose key contains \<open>temperature\<close>, in any case, is in \<open>tk\<close>,
  its key occurs there once and does not occur in \<open>sk\<close>. Every boolean entry under a key
  other than \<open>serialNumber\<close> is in \<open>sk\<close>, its key occurs there once, and does not occur
  in \<open>tk\<close> when it does not contain \<open>temperature\<close>.
\<close>

theorem temperature_and_status_sections:
  assumes "str_keys (VDict (str_dict sd))" and "distinct (map fst sd)"
  shows "\<exists>tk sk body.
     temperatures_loop (str_dict sd) (map fst (str_dict sd)) [] = Inr (str_dict tk)
   \<and> statuses_loop (str_dict sd) (map fst (str_dict sd)) [] = Inr (str_dict sk)
   \<and> nested_loop (filter (\<lambda>(k, v). is_dict v) (str_dict sd)) [] = Inr body
   \<and> format_device_state (str_dict sd) i = Inr (device_header (str_dict sd) i
        @ (if tk = [] then []
           else ''### Temperatures\<newline>\<newline>''
                @ concat (map (\<lambda>(k, v). ''- '' @ readable_temperature k @ '': '' @ py_str v
                                          @ [CHR 0xB0] @ ''C\<newline>'') tk)
                @ ''\<newline>'')
        @ (if sk = [] then []
           else ''### Status Indicators\<newline>\<newline>''
                @ concat (map (\<lambda>(k, v). ''- '' @ readable k @ '': '' @ status_text (truthy v)
                                          @ ''\<newline>'') sk)
                @ ''\<newline>'')
        @ body)
   \<and> subseq tk sd \<and> subseq sk sd
   \<and> (\<forall>(k, v) \<in> set sd. names_temperature k \<and> is_number v \<longrightarrow>
         (k, v) \<in> set tk \<and> count_list (map fst tk) k = 1 \<and> k \<notin> fst ` set sk)
   \<and> (\<forall>(k, v) \<in> set sd. is_bool v \<and> k \<noteq> ''serialNumber'' \<longrightarrow>
         (k, v) \<in> set sk \<and> count_list (map fst sk) k = 1
         \<and> (\<not> names_temperature k \<longrightarrow> k \<notin> fst ` set tk))"
proof -
  define tk where "tk = filter (\<lambda>(k, v). names_temperature k \<and> is_int_or_float v) sd"
  define sk where "sk = filter (\<lambda>(k, v). is_bool v \<and> k \<noteq> ''serialNumber'') sd"
  from assms(1) have wf: "list_all (\<lambda>(k, v). str_keys v) sd"
    by (simp only: str_keys_str_dict)
  have keys: "set (map fst sd) \<subseteq> fst ` set sd" by simp
  note all = lookup_all_keys [OF assms(2)]
  have T: "temperatures_loop (str_dict sd) (map fst (str_dict sd)) [] = Inr (str_dict tk)"
    unfolding map_fst_str_dict temperatures_loop_str_dict [OF keys] all tk_def by simp
  have S: "statuses_loop (str_dict sd) (map fst (str_dict sd)) [] = Inr (str_dict sk)"
    unfolding map_fst_str_dict statuses_loop_str_dict [OF keys] all sk_def by simp
  from format_device_state_str_dict [OF wf, of i] obtain body where
    body: "\<And>result. nested_loop (str_dict sd) result = Inr (result @ body)"
    and F: "format_device_state (str_dict sd) i = Inr (device_header (str_dict sd) i
        @ (if tk = [] then []
           else ''### Temperatures\<newline>\<newline>''
                @ concat (map (\<lambda>(k, v). ''- '' @ readable_temperature k @ '': '' @ py_str v
                                          @ [CHR 0xB0] @ ''C\<newline>'') tk)
                @ ''\<newline>'')
        @ (if sk = [] then []
           else ''### Status Indicators\<newline>\<newline>''
                @ concat (map (\<lambda>(k, v). ''- '' @ readable k @ '': '' @ status_text (truthy v)
                                          @ ''\<newline>'') sk)
                @ ''\<newline>'')
        @ body)"
    unfolding Let_def all tk_def sk_def by blast
  have N: "nested_loop (filter (\<lambda>(k, v). is_dict v) (str_dict sd)) [] = Inr body"
    using nested_loop_dicts_only [of "str_dict sd" "[]"] body [of "[]"] by simp
  have sub: "subseq tk sd" "subseq sk sd"
    by (simp_all add: tk_def sk_def)
  have num: "(k, v) \<in> set tk \<and> count_list (map fst tk) k = 1 \<and> k \<notin> fst ` set sk"
    if "(k, v) \<in> set sd" "names_temperature k" "is_number v" for k v
  proof -
    from that(3) have v: "is_int_or_float v" "\<not> is_bool v" by (cases v; simp)+
    with that have "(k, v) \<in> set tk" by (simp add: tk_def)
    moreover have "count_list (map fst tk) k = 1"
      unfolding tk_def using assms(2) that(1)
      by (rule count_keys_filter) (use that(2) v(1) in simp)
    moreover have "k \<notin> fst ` set sk"
    proof
      assume "k \<in> fst ` set sk"
      then obtain v' where "(k, v') \<in> set sd" "is_bool v'" by (auto simp: sk_def)
      with assms(2) that(1) have "v' = v" by (meson eq_key_imp_eq_value)
      with \<open>is_bool v'\<close> v(2) show False by simp
    qed
    ultimately show ?thesis by blast
  qed
  have bool: "(k, v) \<in> set sk \<and> count_list (map fst sk) k = 1
         \<and> (\<not> names_temperature k \<longrightarrow> k \<notin> fst ` set tk)"
    if "(k, v) \<in> set sd" "is_bool v" "k \<noteq> ''serialNumber''" for k v
  proof -
    from that have "(k, v) \<in> set sk" by (simp add: sk_def)
    moreover have "count_list (map fst sk) k = 1"
      unfolding sk_def using assms(2) that(1)
      by (rule count_keys_filter) (use that(2,3) in simp)
    moreover have "k \<notin> fst ` set tk" if "\<not> names_temperature k"
      using that by (auto simp: tk_def)
    ultimately show ?thesis by blast
  qed
  from num have numB: "\<forall>(k, v) \<in> set sd. names_temperature k \<and> is_number v \<longrightarrow>
         (k, v) \<in> set tk \<and> count_list (map fst tk) k = 1 \<and> k \<notin> fst ` set sk"
    by blast
  from bool have boolB: "\<forall>(k, v) \<in> set sd. is_bool v \<and> k \<noteq> ''serialNumber'' \<longrightarrow>
         (k, v) \<in> set sk \<and> count_list (map fst sk) k = 1
         \<and> (\<not> names_temperature k \<longrightarrow> k \<notin> fst ` set tk)"
    by blast
  show ?thesis
    by (intro exI[of _ tk] exI[of _ sk] exI[of _ body] conjI)
       (rule T S N F sub numB boolB)+
qed

theorem temperature_and_status_sections_witness:
  "str_keys (VDict (str_dict
      [(''serialNumber'', VStr ''S1''), (''outdoorTemperature'', VFloat ''7.5''),
       (''compressorActive'', VBool False), (''flowTemperature'', VInt 35),
       (''pumpRunning'', VBool True), (''circuit'', VDict [(KStr ''mode'', VStr ''AUTO'')])]))
   \<and> distinct (map fst
      [(''serialNumber'', VStr ''S1''), (''outdoorTemperature'', VFloat ''7.5''),
       (''compressorActive'', VBool False), (''flowTemperature'', VInt 35),
       (''pumpRunning'', VBool True), (''circuit'', VDict [(KStr ''mode'', VStr ''AUTO'')])])
   \<and> format_device_state (str_dict
      [(''serialNumber'', VStr ''S1''), (''outdoorTemperature'', VFloat ''7.5''),
       (''compressorActive'', VBool False), (''flowTemperature'', VInt 35),
       (''pumpRunning'', VBool True), (''circuit'', VDict [(KStr ''mode'', VStr ''AUTO'')])]) 0
     = Inr (''## Device: S1 (Unknown)\<newline>\<newline>''
            @ ''### Temperatures\<newline>\<newline>''
            @ ''- Outdoor  temperature: 7.5'' @ [CHR 0xB0] @ ''C\<newline>''
            @ ''- Flow  temperature: 35'' @ [CHR 0xB0] @ ''C\<newline>\<newline>''
            @ ''### Status Indicators\<newline>\<newline>''
            @ ''- Compressor active: Inactive\<newline>''
            @ ''- Pump running: Active\<newline>\<newline>''
            @ ''### Circuit\<newline>\<newline>- Mode: AUTO\<newline>\<newline>'')"
proof -
  let ?sd = "[(''serialNumber'', VStr ''S1''), (''outdoorTemperature'', VFloat ''7.5''),
       (''compressorActive'', VBool False), (''flowTemperature'', VInt 35),
       (''pumpRunning'', VBool True), (''circuit'', VDict [(KStr ''mode'', VStr ''AUTO'')])]"
  let ?tk = "[(''outdoorTemperature'', VFloat ''7.5''), (''flowTemperature'', VInt 35)]"
  let ?sk = "[(''compressorActive'', VBool False), (''pumpRunning'', VBool True)]"
  have h1: "str_keys (VDict (str_dict ?sd))" by simp
  have h2: "distinct (map fst ?sd)" by simp
  have n: "\<not> substr_in ''temperature'' (lower ''serialNumber'')"
      "substr_in ''temperature'' (lower ''outdoorTemperature'')"
      "\<not> substr_in ''temperature'' (lower ''compressorActive'')"
      "substr_in ''temperature'' (lower ''flowTemperature'')"
      "\<not> substr_in ''temperature'' (lower ''pumpRunning'')"
      "\<not> substr_in ''temperature'' (lower ''circuit'')"
    by code_simp+
  have T0: "temperatures_loop (str_dict ?sd) (map fst (str_dict ?sd)) [] = Inr (str_dict ?tk)"
    by (simp add: n dict_item_def)
  have S0: "statuses_loop (str_dict ?sd) (map fst (str_dict ?sd)) [] = Inr (str_dict ?sk)"
    by (simp add: dict_item_def)
  have N0: "nested_loop (filter (\<lambda>(k, v). is_dict v) (str_dict ?sd)) []
      = Inr ''### Circuit\<newline>\<newline>- Mode: AUTO\<newline>\<newline>''"
    by (simp add: eval_simps)
  have H0: "device_header (str_dict ?sd) 0 = ''## Device: S1 (Unknown)\<newline>\<newline>''"
    by (simp add: eval_simps)
  have r: "readable_temperature ''outdoorTemperature'' = ''Outdoor  temperature''"
      "readable_temperature ''flowTemperature'' = ''Flow  temperature''"
      "readable ''compressorActive'' = ''Compressor active''"
      "readable ''pumpRunning'' = ''Pump running''"
      "str_int 35 = ''35''"
    by (simp_all add: eval_simps)
  from temperature_and_status_sections [OF h1 h2, of 0] obtain tk sk body where
    T: "temperatures_loop (str_dict ?sd) (map fst (str_dict ?sd)) [] = Inr (str_dict tk)"
    and S: "statuses_loop (str_dict ?sd) (map fst (str_dict ?sd)) [] = Inr (str_dict sk)"
    and N: "nested_loop (filter (\<lambda>(k, v). is_dict v) (str_dict ?sd)) [] = Inr body"
    and F: "format_device_state (str_dict ?sd) 0 = Inr (device_header (str_dict ?sd) 0
        @ (if tk = [] then []
           else ''### Temperatures\<newline>\<newline>''
                @ concat (map (\<lambda>(k, v). ''- '' @ readable_temperature k @ '': '' @ py_str v
                                          @ [CHR 0xB0] @ ''C\<newline>'') tk)
                @ ''\<newline>'')
        @ (if sk = [] then []
           else ''### Status Indicators\<newline>\<newline>''
                @ concat (map (\<lambda>(k, v). ''- '' @ readable k @ '': '' @ status_text (truthy v)
                                          @ ''\<newline>'') sk)
                @ ''\<newline>'')
        @ body)"
    by blast
  from T T0 have tk: "tk = ?tk" by (intro str_dict_inj) simp
  from S S0 have sk: "sk = ?sk" by (intro str_dict_inj) simp
  from N N0 have body: "body = ''### Circuit\<newline>\<newline>- Mode: AUTO\<newline>\<newline>''" by simp
  have "format_device_state (str_dict ?sd) 0
     = Inr (''## Device: S1 (Unknown)\<newline>\<newline>''
            @ ''### Temperatures\<newline>\<newline>''
            @ ''- Outdoor  temperature: 7.5'' @ [CHR 0xB0] @ ''C\<newline>''
            @ ''- Flow  temperature: 35'' @ [CHR 0xB0] @ ''C\<newline>\<newline>''
            @ ''### Status Indicators\<newline>\<newline>''
            @ ''- Compressor active: Inactive\<newline>''
            @ ''- Pump running: Active\<newline>\<newline>''
            @ ''### Circuit\<newline>\<newline>- Mode: AUTO\<newline>\<newline>'')"
    unfolding F tk sk body H0 by (simp add: r status_text_def)
  with h1 h2 show ?thesis by blast
qed


text \<open>
  C1. A boolean stored under a key that names a temperature is not listed exactly once:
  the temperature loop tests \<open>isinstance(value, (int, float))\<close>, which a boolean passes,
  and the status loop tests \<open>isinstance(value, bool)\<close>. The record
  \<open>{"roomTemperatureOk": False}\<close> has one key; the report lists it under Temperatures, as
  \<open>False\<close> followed by the degree sign and \<open>C\<close>, and again under Status Indicators, as
  \<open>Inactive\<close>.
\<close>

theorem boolean_temperature_listed_twice:
  "is_bool (VBool False) \<and> names_temperature ''roomTemperatureOk''
   \<and> temperatures_loop [(KStr ''roomTemperatureOk'', VBool False)] [KStr ''roomTemperatureOk''] []
       = Inr [(KStr ''roomTemperatureOk'', VBool False)]
   \<and> statuses_loop [(KStr ''roomTemperatureOk'', VBool False)] [KStr ''roomTemperatureOk''] []
       = Inr [(KStr ''roomTemperatureOk'', VBool False)]
   \<and> format_device_state [(KStr ''roomTemperatureOk'', VBool False)] 0
       = Inr (''## Device: Device 1 (Unknown)\<newline>\<newline>''
              @ ''### Temperatures\<newline>\<newline>''
              @ ''- Room  temperature ok: False'' @ [CHR 0xB0] @ ''C\<newline>\<newline>''
              @ ''### Status Indicators\<newline>\<newline>''
              @ ''- Room temperature ok: Inactive\<newline>\<newline>'')"
proof -
  have n: "names_temperature ''roomTemperatureOk''"
    unfolding names_temperature_def by code_simp
  then have "substr_in ''temperature'' (lower ''roomTemperatureOk'')"
    by (simp only: names_temperature_def)
  then have "temperatures_loop [(KStr ''roomTemperatureOk'', VBool False)]
        [KStr ''roomTemperatureOk''] [] = Inr [(KStr ''roomTemperatureOk'', VBool False)]"
    by (simp add: dict_item_def)
  moreover have "statuses_loop [(KStr ''roomTemperatureOk'', VBool False)]
        [KStr ''roomTemperatureOk''] [] = Inr [(KStr ''roomTemperatureOk'', VBool False)]"
    by (simp add: dict_item_def)
  moreover have "format_device_state [(KStr ''roomTemperatureOk'', VBool False)] 0
       = Inr (''## Device: Device 1 (Unknown)\<newline>\<newline>''
              @ ''### Temperatures\<newline>\<newline>''
              @ ''- Room  temperature ok: False'' @ [CHR 0xB0] @ ''C\<newline>\<newline>''
              @ ''### Status Indicators\<newline>\<newline>''
              @ ''- Room temperature ok: Inactive\<newline>\<newline>'')"
    by (simp add: eval_simps)
  ultimately show ?thesis using n by simp
qed


section \<open>Properties of the formatter under the interpreter's limits\<close>

subsection \<open>Within the limits the two descriptions agree\<close>

lemma fold_max_ge: "(a :: nat) \<le> fold max xs a"
  by (induction xs arbitrary: a) (auto intro: order_trans [OF max.cobounded2])

lemma fold_max_mem: "(x :: nat) \<in> set xs \<Longrightarrow> x \<le> fold max xs a"
proof (induction xs arbitrary: a)
  case Nil
  then show ?case by simp
next
  case (Cons y ys)
  show ?case
  proof (cases "x = y")
    case True
    have "max y a \<le> fold max ys (max y a)" by (rule fold_max_ge)
    with True show ?thesis by simp
  next
    case False
    with Cons.prems have "x \<in> set ys" by simp
    then show ?thesis using Cons.IH by simp
  qed
qed

lemma nesting_pos: "0 < nesting v"
  by (cases v) simp_all

lemma nesting_entry:
  assumes "(k, v) \<in> set kvs"
  shows "nesting v < nesting (VDict kvs)"
proof -
  from assms have "nesting v \<in> set (map (\<lambda>(k, v). nesting v) kvs)" by force
  then have "nesting v \<le> fold max (map (\<lambda>(k, v). nesting v) kvs) 0" by (rule fold_max_mem)
  then show ?thesis by simp
qed

lemma ints_within_entry:
  assumes "(k, v) \<in> set kvs" "ints_within limit (VDict kvs)"
  shows "ints_within limit v" "key_ints_within limit k"
  using assms by (auto simp: list_all_iff)

lemma first_error_map:
  "(\<And>x. x \<in> set xs \<Longrightarrow> f x = Inr (g x)) \<Longrightarrow> first_error (map f xs) = Inr (map g xs)"
  by (induction xs) simp_all

lemma str_int_lim_ok: "\<not> too_many_digits limit n \<Longrightarrow> str_int_lim limit n = Inr (str_int n)"
  by (simp add: str_int_lim_def)

lemma repr_key_lim_ok:
  "key_ints_within limit k \<Longrightarrow> repr_key_lim limit (Suc depth) k = Inr (repr_key k)"
  by (cases k) (simp_all add: str_int_lim_ok)

lemma py_repr_lim_ok:
  "ints_within limit v \<Longrightarrow> nesting v \<le> depth \<Longrightarrow> py_repr_lim limit depth v = Inr (py_repr v)"
proof (induction depth arbitrary: v)
  case 0
  then show ?case using nesting_pos [of v] by simp
next
  case (Suc depth)
  show ?case
  proof (cases v)
    case (VDict kvs)
    have item: "(case x of (k, v) \<Rightarrow>
              case repr_key_lim limit depth k of
                Inl e \<Rightarrow> Inl e
              | Inr ks \<Rightarrow>
                 (case py_repr_lim limit depth v of
                    Inl e \<Rightarrow> Inl e
                  | Inr vs \<Rightarrow> Inr (ks @ '': '' @ vs)))
          = Inr (case x of (k, v) \<Rightarrow> repr_key k @ '': '' @ py_repr v)"
      if "x \<in> set kvs" for x
    proof -
      obtain k w where x: "x = (k, w)" by (cases x)
      with that have mem: "(k, w) \<in> set kvs" by simp
      from mem Suc.prems(1) have iw: "ints_within limit w" and ik: "key_ints_within limit k"
        unfolding VDict by (rule ints_within_entry)+
      from nesting_entry [OF mem] Suc.prems(2) have nw: "nesting w \<le> depth"
        unfolding VDict by simp
      with nesting_pos [of w] obtain d' where d': "depth = Suc d'"
        by (cases depth) auto
      have "repr_key_lim limit depth k = Inr (repr_key k)"
        unfolding d' using ik by (rule repr_key_lim_ok)
      moreover have "py_repr_lim limit depth w = Inr (py_repr w)"
        using iw nw by (rule Suc.IH)
      ultimately show ?thesis by (simp add: x)
    qed
    have "first_error (map (\<lambda>(k, v).
              case repr_key_lim limit depth k of
                Inl e \<Rightarrow> Inl e
              | Inr ks \<Rightarrow>
                 (case py_repr_lim limit depth v of
                    Inl e \<Rightarrow> Inl e
                  | Inr vs \<Rightarrow> Inr (ks @ '': '' @ vs))) kvs)
        = Inr (map (\<lambda>(k, v). repr_key k @ '': '' @ py_repr v) kvs)"
      by (rule first_error_map) (rule item)
    then show ?thesis
      unfolding VDict by simp
  next
    case (VInt n)
    with Suc.prems show ?thesis by (simp add: str_int_lim_ok)
  qed simp_all
qed

lemma py_str_lim_ok:
  "ints_within limit v \<Longrightarrow> nesting v \<le> depth \<Longrightarrow> py_str_lim limit depth v = Inr (py_str v)"
  by (cases v) (simp_all add: py_repr_lim_ok del: py_repr.simps)


lemma within_entries:
  assumes "ints_within limit (VDict kvs)" "nesting (VDict kvs) \<le> depth"
  shows "list_all (\<lambda>(k, v). ints_within limit v \<and> nesting v \<le> depth) kvs"
  unfolding list_all_iff
proof (intro ballI, clarify, intro conjI)
  fix k v assume mem: "(k, v) \<in> set kvs"
  from mem assms(1) show "ints_within limit v" by (rule ints_within_entry)
  from nesting_entry [OF mem] assms(2) show "nesting v \<le> depth" by simp
qed

lemma temperature_lines_lim_eq:
  "list_all (\<lambda>(k, v). ints_within limit v \<and> nesting v \<le> depth) ts \<Longrightarrow>
     temperature_lines_lim limit depth ts result = temperature_lines ts result"
  by (induction ts arbitrary: result) (auto simp: py_str_lim_ok split: sum.splits)

lemma temperatures_section_lim_eq:
  "list_all (\<lambda>(k, v). ints_within limit v \<and> nesting v \<le> depth) ts \<Longrightarrow>
     temperatures_section_lim limit depth ts result = temperatures_section ts result"
  by (simp add: temperatures_section_lim_def temperatures_section_def temperature_lines_lim_eq)

lemma subsub_loop_lim_eq:
  "list_all (\<lambda>(k, v). ints_within limit v \<and> nesting v \<le> depth) kvs \<Longrightarrow>
     subsub_loop_lim limit depth kvs result = subsub_loop kvs result"
  by (induction kvs arbitrary: result) (auto simp: py_str_lim_ok split: sum.splits)

lemma sub_leaf_lim_eq:
  "ints_within limit v \<Longrightarrow> nesting v \<le> depth \<Longrightarrow>
     sub_leaf_lim limit depth k v result = sub_leaf k v result"
  by (simp add: sub_leaf_lim_def sub_leaf_def py_str_lim_ok split: sum.splits)

lemma sub_loop_lim_eq:
  "list_all (\<lambda>(k, v). ints_within limit v \<and> nesting v \<le> depth) kvs \<Longrightarrow>
     sub_loop_lim limit depth kvs result = sub_loop kvs result"
proof (induction kvs arbitrary: result)
  case Nil
  then show ?case by simp
next
  case (Cons kv kvs)
  obtain k v where kv: "kv = (k, v)" by (cases kv)
  from Cons.prems have v: "ints_within limit v" "nesting v \<le> depth"
    and rest: "list_all (\<lambda>(k, v). ints_within limit v \<and> nesting v \<le> depth) kvs"
    by (simp_all add: kv)
  note IH = Cons.IH [OF rest]
  show ?case
  proof (cases v)
    case (VDict subsub)
    from v have "list_all (\<lambda>(k, v). ints_within limit v \<and> nesting v \<le> depth) subsub"
      unfolding VDict by (rule within_entries)
    then show ?thesis
      by (simp add: kv VDict subsub_loop_lim_eq IH split: sum.splits)
  qed (use v in \<open>simp_all add: kv sub_leaf_lim_eq IH split: sum.splits\<close>)
qed

lemma nested_loop_lim_eq:
  "list_all (\<lambda>(k, v). ints_within limit v \<and> nesting v \<le> depth) kvs \<Longrightarrow>
     nested_loop_lim limit depth kvs result = nested_loop kvs result"
proof (induction kvs arbitrary: result)
  case Nil
  then show ?case by simp
next
  case (Cons kv kvs)
  obtain k v where kv: "kv = (k, v)" by (cases kv)
  from Cons.prems have v: "ints_within limit v" "nesting v \<le> depth"
    and rest: "list_all (\<lambda>(k, v). ints_within limit v \<and> nesting v \<le> depth) kvs"
    by (simp_all add: kv)
  note IH = Cons.IH [OF rest]
  show ?case
  proof (cases v)
    case (VDict sub)
    from v have "list_all (\<lambda>(k, v). ints_within limit v \<and> nesting v \<le> depth) sub"
      unfolding VDict by (rule within_entries)
    then show ?thesis
      by (simp add: kv VDict sub_loop_lim_eq IH split: sum.splits)
  qed (simp_all add: kv IH)
qed

lemma dict_item_within:
  assumes "list_all (\<lambda>(k, v). P v) d" "dict_item d key = Inr v"
  shows "P v"
proof -
  from assms(2) have "map_of d key = Some v"
    by (simp add: dict_item_def split: option.splits)
  then have "(key, v) \<in> set d" by (rule map_of_SomeD)
  with assms(1) show ?thesis by (auto simp: list_all_iff)
qed

lemma temperatures_loop_within:
  assumes "list_all (\<lambda>(k, v). P v) d"
  shows "temperatures_loop d keys acc = Inr ts \<Longrightarrow> list_all (\<lambda>(k, v). P v) acc \<Longrightarrow>
     list_all (\<lambda>(k, v). P v) ts"
proof (induction keys arbitrary: acc)
  case Nil
  then show ?case by simp
next
  case (Cons key keys)
  show ?case
  proof (cases "key_lower key")
    case (Inl e)
    with Cons.prems show ?thesis by simp
  next
    case (Inr lk)
    show ?thesis
    proof (cases "substr_in ''temperature'' lk \<and> key \<noteq> KStr ''serialNumber''")
      case False
      with Cons.prems Inr have "temperatures_loop d keys acc = Inr ts" by auto
      then show ?thesis using Cons.prems(2) by (rule Cons.IH)
    next
      case True
      show ?thesis
      proof (cases "dict_item d key")
        case (Inl e)
        with Cons.prems \<open>key_lower key = Inr lk\<close> True show ?thesis by simp
      next
        case v: (Inr v)
        from assms v have Pv: "P v" by (rule dict_item_within)
        show ?thesis
        proof (cases "is_int_or_float v")
          case True
          with Cons.prems Inr v \<open>substr_in ''temperature'' lk \<and> key \<noteq> KStr ''serialNumber''\<close>
          have "temperatures_loop d keys (acc @ [(key, v)]) = Inr ts" by simp
          moreover from Cons.prems(2) Pv have "list_all (\<lambda>(k, v). P v) (acc @ [(key, v)])"
            by simp
          ultimately show ?thesis by (rule Cons.IH)
        next
          case False
          with Cons.prems Inr v \<open>substr_in ''temperature'' lk \<and> key \<noteq> KStr ''serialNumber''\<close>
          have "temperatures_loop d keys acc = Inr ts" by simp
          then show ?thesis using Cons.prems(2) by (rule Cons.IH)
        qed
      qed
    qed
  qed
qed

lemma dict_get_within:
  assumes "list_all (\<lambda>(k, v). P v) d" "P dflt"
  shows "P (dict_get d key dflt)"
proof (cases "map_of d key")
  case None
  with assms(2) show ?thesis by (simp add: dict_get_def)
next
  case (Some v)
  then have "(key, v) \<in> set d" by (rule map_of_SomeD)
  with assms(1) have "P v" by (auto simp: list_all_iff)
  with Some show ?thesis by (simp add: dict_get_def)
qed

lemma masked_serial_within:
  assumes "ints_within limit v \<and> nesting v \<le> depth"
  shows "ints_within limit (masked_serial v) \<and> nesting (masked_serial v) \<le> depth"
  using assms by (cases v) (auto simp: masked_serial_def)

lemma device_header_lim_eq:
  assumes d: "list_all (\<lambda>(k, v). ints_within limit v \<and> nesting v \<le> depth) d"
    and i: "\<not> too_many_digits limit (i + 1)" and depth: "0 < depth"
  shows "device_header_lim limit depth d i = Inr (device_header d i)"
proof -
  from i depth have n: "py_str_lim limit depth (VInt (i + 1)) = Inr (str_int (i + 1))"
    using py_str_lim_ok [of limit "VInt (i + 1)" depth] by simp
  let ?serial = "dict_get d (KStr ''serialNumber'') (VStr (''Device '' @ str_int (i + 1)))"
  let ?type = "dict_get d (KStr ''type'') (VStr ''Unknown'')"
  from depth have dflt: "ints_within limit (VStr s) \<and> nesting (VStr s) \<le> depth" for s
    by simp
  have "ints_within limit ?serial \<and> nesting ?serial \<le> depth"
    using d dflt by (rule dict_get_within)
  then have "ints_within limit (masked_serial ?serial) \<and> nesting (masked_serial ?serial) \<le> depth"
    by (rule masked_serial_within)
  then have s: "py_str_lim limit depth (masked_serial ?serial) = Inr (py_str (masked_serial ?serial))"
    by (simp add: py_str_lim_ok)
  have "ints_within limit ?type \<and> nesting ?type \<le> depth"
    using d dflt by (rule dict_get_within)
  then have t: "py_str_lim limit depth ?type = Inr (py_str ?type)"
    by (simp add: py_str_lim_ok)
  show ?thesis
    unfolding device_header_lim_def device_header_def Let_def n sum.case s t
    by simp
qed

lemma format_device_state_lim_eq:
  assumes "ints_within limit (VDict d)" "nesting (VDict d) \<le> depth"
    and i: "\<not> too_many_digits limit (i + 1)"
  shows "format_device_state_lim limit depth d i = format_device_state d i"
proof -
  from assms(1,2) have d: "list_all (\<lambda>(k, v). ints_within limit v \<and> nesting v \<le> depth) d"
    by (rule within_entries)
  from assms(2) have depth: "0 < depth" by simp
  have h: "device_header_lim limit depth d i = Inr (device_header d i)"
    using d i depth by (rule device_header_lim_eq)
  have ts: "temperatures_section_lim limit depth ts result = temperatures_section ts result"
    if "temperatures_loop d (map fst d) [] = Inr ts" for ts result
  proof -
    have "list_all (\<lambda>(k, v). ints_within limit v \<and> nesting v \<le> depth) ts"
      using d that by (rule temperatures_loop_within) simp
    then show ?thesis by (rule temperatures_section_lim_eq)
  qed
  show ?thesis
    unfolding format_device_state_lim_def format_device_state_def h
    by (simp add: ts nested_loop_lim_eq [OF d] split: sum.splits)
qed


lemma str_nat_nonempty: "str_nat n \<noteq> []"
  by (simp add: str_nat.simps [of n])

lemma str_nat_length_gt: "10 ^ k \<le> n \<Longrightarrow> k < length (str_nat n)"
proof (induction k arbitrary: n)
  case 0
  from str_nat_nonempty [of n] show ?case by simp
next
  case (Suc k)
  define a :: nat where "a = 10 ^ k"
  have "1 \<le> a" by (simp add: a_def)
  moreover from Suc.prems have "10 * a \<le> n" by (simp add: a_def)
  ultimately have ge: "10 \<le> n" and "a \<le> n div 10"
    by linarith+
  from this(2) have "k < length (str_nat (n div 10))"
    unfolding a_def by (rule Suc.IH)
  with ge show ?case by (simp add: str_nat.simps [of n])
qed

lemma too_many_digits_power:
  assumes "0 < limit" "limit \<le> k"
  shows "too_many_digits limit (10 ^ k)"
proof -
  have "nat \<bar>(10 :: int) ^ k\<bar> = 10 ^ k" by (simp add: nat_power_eq)
  then have "k < length (str_nat (nat \<bar>(10 :: int) ^ k\<bar>))"
    by (simp add: str_nat_length_gt)
  with assms show ?thesis by (simp add: too_many_digits_def)
qed

lemma not_too_many_digits_1: "\<not> too_many_digits limit 1"
  by (auto simp: too_many_digits_def str_nat.simps)

lemma digit_limit_raises:
  assumes "0 < limit" "limit \<le> k" "0 < depth"
  shows "format_device_state_lim limit depth [(KStr ''flowTemperature'', VInt (10 ^ k))] 0
     = Inl ValueError"
proof -
  from assms(3) obtain d' where depth: "depth = Suc d'" by (cases depth) auto
  have big: "str_int_lim limit (10 ^ k) = Inl ValueError"
    using too_many_digits_power [OF assms(1,2)] by (simp add: str_int_lim_def)
  have one: "str_int_lim limit 1 = Inr ''1''"
    by (simp add: str_int_lim_def not_too_many_digits_1 str_int_def str_nat.simps digit_chr_def
        char_of_eq_iff)
  have h: "device_header_lim limit depth [(KStr ''flowTemperature'', VInt (10 ^ k))] 0
      = Inr ''## Device: Device 1 (Unknown)\<newline>\<newline>''"
    by (simp add: depth device_header_lim_def dict_get_def masked_serial_def one)
  have "substr_in ''temperature'' (lower ''flowTemperature'')" by code_simp
  then have t: "temperatures_loop [(KStr ''flowTemperature'', VInt (10 ^ k))]
      (map fst [(KStr ''flowTemperature'', VInt (10 ^ k))]) []
      = Inr [(KStr ''flowTemperature'', VInt (10 ^ k))]"
    by (simp add: dict_item_def)
  show ?thesis
    unfolding format_device_state_lim_def h t
    by (simp add: temperatures_section_lim_def depth big)
qed


text \<open>
  Beyond the recursion budget: whatever the budget, a well-formed record nested deep
  enough makes the formatter raise RecursionError.
\<close>

lemma str_keys_nested: "str_keys (nested n)"
  by (induction n) simp_all

lemma py_repr_lim_nested: "py_repr_lim limit depth (nested depth) = Inl RecursionError"
proof (induction depth)
  case 0
  show ?case by simp
next
  case (Suc depth)
  then show ?case by (cases depth) simp_all
qed

lemma deep_nesting_raises:
  assumes "0 < depth"
  shows "format_device_state_lim limit depth
           [(KStr ''circuit'', VDict [(KStr ''pump'', VDict [(KStr ''state'', nested depth)])])] 0
     = Inl RecursionError"
proof -
  from assms obtain d' where depth: "depth = Suc d'" by (cases depth) auto
  let ?d = "[(KStr ''circuit'', VDict [(KStr ''pump'', VDict [(KStr ''state'', nested depth)])])]"
  have one: "str_int_lim limit 1 = Inr ''1''"
    by (simp add: str_int_lim_def not_too_many_digits_1 str_int_def str_nat.simps digit_chr_def
        char_of_eq_iff)
  have h: "device_header_lim limit depth ?d 0 = Inr ''## Device: Device 1 (Unknown)\<newline>\<newline>''"
    by (simp add: depth device_header_lim_def dict_get_def masked_serial_def one)
  have "\<not> substr_in ''temperature'' (lower ''circuit'')" by code_simp
  then have t: "temperatures_loop ?d (map fst ?d) [] = Inr []"
    by (simp add: dict_item_def)
  have s: "statuses_loop ?d (map fst ?d) [] = Inr []"
    by (simp add: dict_item_def)
  have r: "py_str_lim limit depth (nested depth) = Inl RecursionError"
    using py_repr_lim_nested [of limit depth] by (cases depth) simp_all
  show ?thesis
    unfolding format_device_state_lim_def h t s
    by (simp add: temperatures_section_lim_def statuses_section_def r)
qed

subsection \<open>Claim on totality\<close>

text \<open>
  C9, as stated, fails: the record \<open>{"flowTemperature": 10 ** 4300}\<close> is well formed, its
  one key is a string and its one value is a number, and the formatter raises ValueError
  on it. The number has 4301 digits, one more than the interpreter's default limit of
  4300 for the conversion of an integer to text, which the temperature line needs.
\<close>

theorem oversized_integer_raises:
  "str_keys (VDict [(KStr ''flowTemperature'', VInt (10 ^ 4300))])
   \<and> format_device_state_lim 4300 1000 [(KStr ''flowTemperature'', VInt (10 ^ 4300))] 0
       = Inl ValueError"
proof (rule conjI)
  have "str_keys (VDict [(KStr ''flowTemperature'', VInt n)])" for n
    by simp
  then show "str_keys (VDict [(KStr ''flowTemperature'', VInt (10 ^ 4300))])" .
  have "(0 :: nat) < 4300" "(4300 :: nat) \<le> 4300" "(0 :: nat) < 1000"
    by simp_all
  then show "format_device_state_lim 4300 1000 [(KStr ''flowTemperature'', VInt (10 ^ 4300))] 0
       = Inl ValueError"
    by (rule digit_limit_raises)
qed

text \<open>
  C9, amended. \<open>format_device_state\<close> returns a non-empty report, and raises nothing, on
  every record all of whose keys, at every depth, are strings, provided that the record
  is within the interpreter's limits: none of its integers, nor \<open>index + 1\<close>, has more
  digits than the digit limit, and its nesting does not exceed the recursion budget. On
  the empty record the report is the header alone: it is not empty and contains neither
  a Temperatures nor a Status Indicators heading; for index 0 it is
  \<open>## Device: Device 1 (Unknown)\<close> and a blank line.
\<close>

theorem format_device_state_lim_total:
  "(str_keys (VDict d) \<and> ints_within limit (VDict d) \<and> nesting (VDict d) \<le> depth
      \<and> \<not> too_many_digits limit (i + 1)
      \<longrightarrow> (\<exists>out. format_device_state_lim limit depth d i = Inr out \<and> out \<noteq> []))
   \<and> (0 < depth \<and> \<not> too_many_digits limit (j + 1)
      \<longrightarrow> format_device_state_lim limit depth [] j = Inr (device_header [] j)
          \<and> device_header [] j \<noteq> []
          \<and> \<not> substr_in ''### Temperatures'' (device_header [] j)
          \<and> \<not> substr_in ''### Status Indicators'' (device_header [] j))
   \<and> (0 < depth
      \<longrightarrow> format_device_state_lim limit depth [] 0 = Inr ''## Device: Device 1 (Unknown)\<newline>\<newline>'')"
proof (intro conjI impI)
  assume a: "str_keys (VDict d) \<and> ints_within limit (VDict d) \<and> nesting (VDict d) \<le> depth
      \<and> \<not> too_many_digits limit (i + 1)"
  then have "format_device_state_lim limit depth d i = format_device_state d i"
    by (intro format_device_state_lim_eq) simp_all
  moreover from a have "str_keys (VDict d)" by simp
  from format_device_state_header [OF this, of i] obtain body where
    "format_device_state d i = Inr (device_header d i @ body)" by blast
  ultimately show "\<exists>out. format_device_state_lim limit depth d i = Inr out \<and> out \<noteq> []"
    by (simp add: device_header_nonempty)
next
  assume a: "0 < depth \<and> \<not> too_many_digits limit (j + 1)"
  then have "format_device_state_lim limit depth [] j = format_device_state [] j"
    by (intro format_device_state_lim_eq) simp_all
  then show "format_device_state_lim limit depth [] j = Inr (device_header [] j)"
    by (simp only: format_device_state_empty)
  show "device_header [] j \<noteq> []" by (rule device_header_nonempty)
  show "\<not> substr_in ''### Temperatures'' (device_header [] j)" by (rule no_temperatures_in_empty)
  show "\<not> substr_in ''### Status Indicators'' (device_header [] j)" by (rule no_statuses_in_empty)
next
  assume a: "0 < depth"
  have "\<not> too_many_digits limit (0 + 1)" by (simp add: not_too_many_digits_1)
  with a have "format_device_state_lim limit depth [] 0 = format_device_state [] 0"
    by (intro format_device_state_lim_eq) simp_all
  then show "format_device_state_lim limit depth [] 0 = Inr ''## Device: Device 1 (Unknown)\<newline>\<newline>''"
    by (simp only: empty_at_0)
qed

theorem format_device_state_lim_total_witness:
  "str_keys (VDict [(KStr ''flowTemperature'', VInt 35),
                    (KStr ''circuit'', VDict [(KStr ''pumpRunning'', VBool True),
                                              (KStr ''zone'', VDict [(KStr ''setpoint'', VInt 21)])])])
   \<and> ints_within 4300 (VDict [(KStr ''flowTemperature'', VInt 35),
                    (KStr ''circuit'', VDict [(KStr ''pumpRunning'', VBool True),
                                              (KStr ''zone'', VDict [(KStr ''setpoint'', VInt 21)])])])
   \<and> nesting (VDict [(KStr ''flowTemperature'', VInt 35),
                    (KStr ''circuit'', VDict [(KStr ''pumpRunning'', VBool True),
                                              (KStr ''zone'', VDict [(KStr ''setpoint'', VInt 21)])])]) \<le> 1000
   \<and> \<not> too_many_digits 4300 (0 + 1)
   \<and> (\<exists>out. format_device_state_lim 4300 1000 [(KStr ''flowTemperature'', VInt 35),
                    (KStr ''circuit'', VDict [(KStr ''pumpRunning'', VBool True),
                                              (KStr ''zone'', VDict [(KStr ''setpoint'', VInt 21)])])] 0
          = Inr out \<and> out \<noteq> [])
   \<and> (0 :: nat) < 1000
   \<and> format_device_state_lim 4300 1000 [] 0 = Inr (device_header [] 0)
   \<and> format_device_state_lim 4300 1000 [] 0 = Inr ''## Device: Device 1 (Unknown)\<newline>\<newline>''"
proof -
  let ?d = "[(KStr ''flowTemperature'', VInt 35),
             (KStr ''circuit'', VDict [(KStr ''pumpRunning'', VBool True),
                                       (KStr ''zone'', VDict [(KStr ''setpoint'', VInt 21)])])]"
  have h1: "str_keys (VDict ?d)" by simp
  have h2: "ints_within 4300 (VDict ?d)"
    by (simp add: too_many_digits_def str_nat.simps)
  have h3: "nesting (VDict ?d) \<le> 1000" by simp
  have h4: "\<not> too_many_digits 4300 (0 + 1)"
    by (simp add: not_too_many_digits_1)
  have h5: "(0 :: nat) < 1000" by simp
  note t = format_device_state_lim_total [of ?d 4300 1000 0 0]
  from t h1 h2 h3 h4 have c1: "\<exists>out. format_device_state_lim 4300 1000 ?d 0 = Inr out \<and> out \<noteq> []"
    by blast
  from t h4 h5 have c2: "format_device_state_lim 4300 1000 [] 0 = Inr (device_header [] 0)"
    by blast
  from t h5 have c3: "format_device_state_lim 4300 1000 [] 0
      = Inr ''## Device: Device 1 (Unknown)\<newline>\<newline>''"
    by blast
  from h1 h2 h3 h4 c1 h5 c2 c3 show ?thesis by blast
qed

end
